theory Spec2Isabelle
  imports Main
begin

section \<open>The shell process and its surroundings\<close>

text \<open>
  The program is \<^verbatim>\<open>src/main.c\<close>, a small interactive shell (\<^verbatim>\<open>lsh\<close>). Its functions
  are embedded one by one, under their own names, as functions that take the state of
  the process and of the operating system around it (a \<open>world\<close>) and give back what
  the call does: it returns, it ends the process, it replaces the process image, or it
  never comes back.

  Everything the C library or the kernel decides is a field of the world. Mutable state:
  the unread bytes of standard input, what has been written to standard output and
  standard error, the working directory, and the contents of \<^verbatim>\<open>history.txt\<close> in each
  directory (the program opens it by a relative name). Answers of the system, fixed
  beforehand and looked up when the call is made: whether the \<open>n\<close>-th request
  succeeds (\<open>os_alloc\<close>, \<open>os_fork\<close>, \<open>os_clock\<close>, indexed by a counter \<open>ticks\<close> that
  each such request advances), and what the file system says about a directory
  (\<open>os_chdir\<close>, \<open>os_getcwd\<close>, \<open>os_write_denied\<close>, \<open>os_read_denied\<close>).
  An error is carried as the text \<^verbatim>\<open>strerror(errno)\<close> would give.
\<close>

type_synonym errtext = string

text \<open>
  The status \<^verbatim>\<open>waitpid(pid, &status, WUNTRACED)\<close> reports: the child exited with a
  code, was terminated by a signal, or was stopped by a signal. \<open>WIFEXITED\<close> and
  \<open>WIFSIGNALED\<close> are the POSIX macros of \<^verbatim>\<open><sys/wait.h>\<close> on it.
\<close>

datatype wstatus = WExited nat | WSignaled nat | WStopped nat

fun WIFEXITED :: "wstatus \<Rightarrow> bool" where
  "WIFEXITED (WExited c) = True"
| "WIFEXITED (WSignaled s) = False"
| "WIFEXITED (WStopped s) = False"

fun WIFSIGNALED :: "wstatus \<Rightarrow> bool" where
  "WIFSIGNALED (WExited c) = False"
| "WIFSIGNALED (WSignaled s) = True"
| "WIFSIGNALED (WStopped s) = False"

text \<open>
  What \<^verbatim>\<open>fork()\<close> answers, seen from the process that is followed. \<open>Fork_failed e\<close>:
  it returns \<open>-1\<close>. \<open>Fork_child r\<close>: it returns \<open>0\<close>, the process followed from here on
  is the child, and \<open>r\<close> is what \<^verbatim>\<open>execvp\<close> will answer there (\<open>None\<close>: the image is
  replaced; \<open>Some e\<close>: it returns \<open>-1\<close>). \<open>Fork_parent sts\<close>: it returns the child's pid;
  \<open>sts\<close> are the status reports \<^verbatim>\<open>waitpid\<close> will deliver for this child, in order, and
  once they are used up \<^verbatim>\<open>waitpid\<close> blocks for ever.
\<close>

datatype fork_result =
  Fork_failed errtext
| Fork_child "errtext option"
| Fork_parent "wstatus list"

text \<open>
  A log kept beside the program (it is not a variable of the source): each of the four
  builtin handlers and the launcher appends its mark on entry, so that a theorem can say
  which of them a call of the dispatcher has run.
\<close>

datatype routine = In_cd | In_help | In_exit | In_history | In_launch

record world =
  stdin :: string
  stdout :: string
  stderr :: string
  cwd :: string
  files :: "string \<Rightarrow> string option"
  entered :: "routine list"
  ticks :: nat
  os_alloc :: "nat \<Rightarrow> bool"
  os_fork :: "nat \<Rightarrow> fork_result"
  os_clock :: "nat \<Rightarrow> string"
  os_chdir :: "string \<Rightarrow> string \<Rightarrow> errtext + string"
  os_getcwd :: "string \<Rightarrow> errtext option"
  os_write_denied :: "string \<Rightarrow> errtext option"
  os_read_denied :: "string \<Rightarrow> errtext option"

text \<open>
  How a call ends. \<open>Returns v w\<close>: it returns \<open>v\<close>. \<open>Exits c w\<close>: it calls
  \<^verbatim>\<open>exit(c)\<close>. \<open>Execs args w\<close>: \<^verbatim>\<open>execvp\<close> succeeded, the process now runs the program
  \<open>args\<close> names, in the world \<open>w\<close> (so in its working directory). \<open>Blocks w\<close>: the call
  sits in \<^verbatim>\<open>waitpid\<close> for ever. \<open>Undefined_behaviour w\<close>: an \<^verbatim>\<open>int\<close> counter of the
  source would pass \<open>INT_MAX\<close> (an \<^verbatim>\<open>int\<close> is taken to have 32 bits, and \<^verbatim>\<open>size_t\<close> to be
  wide enough for the sizes the source computes from such a counter).
\<close>

type_synonym argv = "string option list"

datatype 'a outcome =
  Returns 'a world
| Exits int world
| Execs argv world
| Blocks world
| Undefined_behaviour world

definition and_then :: "'a outcome \<Rightarrow> ('a \<Rightarrow> world \<Rightarrow> 'b outcome) \<Rightarrow> 'b outcome" where
  "and_then r f =
     (case r of
        Returns v w \<Rightarrow> f v w
      | Exits c w \<Rightarrow> Exits c w
      | Execs a w \<Rightarrow> Execs a w
      | Blocks w \<Rightarrow> Blocks w
      | Undefined_behaviour w \<Rightarrow> Undefined_behaviour w)"

definition EXIT_FAILURE :: int where
  "EXIT_FAILURE = 1"

definition INT_MAX :: nat where
  "INT_MAX = 2147483647"

subsection \<open>C strings and the argument vector\<close>

definition NL :: string where
  "NL = [CHR 0x0A]"

definition NUL :: char where
  "NUL = CHR 0x00"

text \<open>The string a \<^verbatim>\<open>char *\<close> denotes: the bytes of the buffer before the first NUL.\<close>

definition cstr :: "string \<Rightarrow> string" where
  "cstr buf = takeWhile (\<lambda>c. c \<noteq> NUL) buf"

text \<open>
  An argument vector is a \<^verbatim>\<open>char **\<close> whose cells are strings up to a terminating
  NULL cell: \<open>Some s\<close> is a pointer to a buffer \<open>s\<close>, \<open>None\<close> is NULL. \<open>arg args i\<close> is
  \<^verbatim>\<open>args[i]\<close> read as a string. The program reads \<^verbatim>\<open>args[0]\<close>, and \<^verbatim>\<open>args[1]\<close> only in
  a handler, which the dispatcher calls when \<^verbatim>\<open>args[0]\<close> is not NULL; so it never reads
  behind the terminator of a vector the tokenizer built, and a cell behind the end of
  the list reads as NULL.
\<close>

definition arg :: "argv \<Rightarrow> nat \<Rightarrow> string option" where
  "arg args i = (if i < length args then map_option cstr (args ! i) else None)"

text \<open>
  \<^verbatim>\<open>strcmp\<close> and \<^verbatim>\<open>strcasecmp\<close> of the C library, on the strings their arguments
  denote: the difference of the first two bytes that differ (after \<^verbatim>\<open>tolower\<close> for the
  second), \<open>0\<close> when there is none.
\<close>

fun strcmp_bytes :: "string \<Rightarrow> string \<Rightarrow> int" where
  "strcmp_bytes [] [] = 0"
| "strcmp_bytes [] (b # bs) = - int (of_char b)"
| "strcmp_bytes (a # us) [] = int (of_char a)"
| "strcmp_bytes (a # us) (b # bs) =
     (if a = b then strcmp_bytes us bs else int (of_char a) - int (of_char b))"

definition strcmp :: "string \<Rightarrow> string \<Rightarrow> int" where
  "strcmp a b = strcmp_bytes (cstr a) (cstr b)"

definition tolower :: "char \<Rightarrow> char" where
  "tolower c =
     (let n = (of_char c :: nat) in if 65 \<le> n \<and> n \<le> 90 then char_of (n + 32) else c)"

definition strcasecmp :: "string \<Rightarrow> string \<Rightarrow> int" where
  "strcasecmp a b = strcmp_bytes (map tolower (cstr a)) (map tolower (cstr b))"

subsection \<open>Output, allocation, the clock\<close>

definition printf :: "string \<Rightarrow> world \<Rightarrow> world" where
  "printf s w = w\<lparr>stdout := stdout w @ s\<rparr>"

definition fprintf_stderr :: "string \<Rightarrow> world \<Rightarrow> world" where
  "fprintf_stderr s w = w\<lparr>stderr := stderr w @ s\<rparr>"

definition perror :: "string \<Rightarrow> errtext \<Rightarrow> world \<Rightarrow> world" where
  "perror msg e w = fprintf_stderr (msg @ '': '' @ e @ NL) w"

definition enter :: "routine \<Rightarrow> world \<Rightarrow> world" where
  "enter r w = w\<lparr>entered := entered w @ [r]\<rparr>"

text \<open>\<^verbatim>\<open>malloc\<close> and \<^verbatim>\<open>realloc\<close>: whether the request is granted, and the world after it.\<close>

definition alloc :: "world \<Rightarrow> bool \<times> world" where
  "alloc w = (os_alloc w (ticks w), w\<lparr>ticks := Suc (ticks w)\<rparr>)"

text \<open>
  \<^verbatim>\<open>time\<close>, \<^verbatim>\<open>localtime\<close> and \<^verbatim>\<open>strftime\<close> with \<^verbatim>\<open>"%Y-%m-%d %H:%M:%S"\<close>: the
  formatted local time, and the world after it.
\<close>

definition timestamp :: "world \<Rightarrow> string \<times> world" where
  "timestamp w = (os_clock w (ticks w), w\<lparr>ticks := Suc (ticks w)\<rparr>)"

subsection \<open>The line reader\<close>

text \<open>
  \<^verbatim>\<open>getchar()\<close>: the next byte of standard input, or \<open>None\<close> for \<^verbatim>\<open>EOF\<close> when no
  byte is left.
\<close>

definition getchar :: "world \<Rightarrow> char option \<times> world" where
  "getchar w = (case stdin w of [] \<Rightarrow> (None, w) | c # cs \<Rightarrow> (Some c, w\<lparr>stdin := cs\<rparr>))"

definition LSH_RL_BUFSIZE :: nat where
  "LSH_RL_BUFSIZE = 1024"

definition allocation_error :: "world \<Rightarrow> 'a outcome" where
  "allocation_error w = Exits EXIT_FAILURE (fprintf_stderr (''lsh: allocation error'' @ NL) w)"

text \<open>
  The \<^verbatim>\<open>while (1)\<close> of \<^verbatim>\<open>lsh_read_line\<close>. \<open>buffer\<close> holds the bytes stored so far,
  \<open>position\<close> of them; the result is the buffer before the NUL the source stores at
  \<open>position\<close>.
\<close>

function read_loop :: "string \<Rightarrow> nat \<Rightarrow> nat \<Rightarrow> world \<Rightarrow> string outcome" where
  "read_loop buffer position bufsize w =
     (case getchar w of
        (None, w1) \<Rightarrow> Returns buffer w1
      | (Some c, w1) \<Rightarrow>
          if c = CHR 0x0A then Returns buffer w1
          else if Suc position \<ge> bufsize then
            if bufsize + LSH_RL_BUFSIZE > INT_MAX then Undefined_behaviour w1
            else (case alloc w1 of
                    (ok, w2) \<Rightarrow>
                      if \<not> ok then allocation_error w2
                      else read_loop (buffer @ [c]) (Suc position) (bufsize + LSH_RL_BUFSIZE) w2)
          else read_loop (buffer @ [c]) (Suc position) bufsize w1)"
  by pat_completeness auto
termination
  apply (relation "measure (\<lambda>(buffer, position, bufsize, w). length (stdin w))")
    apply simp
   apply (simp_all add: getchar_def alloc_def split: list.splits)
  done

definition lsh_read_line :: "world \<Rightarrow> string outcome" where
  "lsh_read_line w =
     (case alloc w of
        (ok, w1) \<Rightarrow>
          if \<not> ok then allocation_error w1
          else read_loop [] 0 LSH_RL_BUFSIZE w1)"

subsection \<open>The tokenizer\<close>

definition LSH_TOK_BUFSIZE :: nat where
  "LSH_TOK_BUFSIZE = 64"

definition LSH_TOK_DELIM :: string where
  "LSH_TOK_DELIM = [CHR 0x20, CHR 0x09, CHR 0x0D, CHR 0x0A, CHR 0x07]"

text \<open>
  \<^verbatim>\<open>strtok\<close> of the C library on the string at the saved position \<open>s\<close>: it skips the
  delimiters in front; if nothing is left it gives NULL; else the token runs to the next
  delimiter (which it overwrites with NUL) or to the end, and the saved position moves
  behind it. The result is the token and the new saved position.
\<close>

definition strtok :: "string \<Rightarrow> string \<Rightarrow> (string \<times> string) option" where
  "strtok s delim =
     (let start = dropWhile (\<lambda>c. c \<in> set delim) s in
      if start = [] then None
      else Some (takeWhile (\<lambda>c. c \<notin> set delim) start,
                 drop 1 (dropWhile (\<lambda>c. c \<notin> set delim) start)))"

text \<open>
  The \<^verbatim>\<open>while (token != NULL)\<close> of \<^verbatim>\<open>lsh_split_line\<close>. \<open>token\<close> is the last answer of
  \<^verbatim>\<open>strtok\<close>, \<open>tokens\<close> the cells stored so far, \<open>position\<close> of them.
\<close>

function split_loop ::
  "(string \<times> string) option \<Rightarrow> argv \<Rightarrow> nat \<Rightarrow> nat \<Rightarrow> world \<Rightarrow> argv outcome" where
  "split_loop token tokens position bufsize w =
     (case token of
        None \<Rightarrow> Returns (tokens @ [None]) w
      | Some (t, saved) \<Rightarrow>
          if Suc position \<ge> bufsize then
            if bufsize + LSH_TOK_BUFSIZE > INT_MAX then Undefined_behaviour w
            else (case alloc w of
                    (ok, w1) \<Rightarrow>
                      if \<not> ok then allocation_error w1
                      else split_loop (strtok saved LSH_TOK_DELIM) (tokens @ [Some t])
                             (Suc position) (bufsize + LSH_TOK_BUFSIZE) w1)
          else split_loop (strtok saved LSH_TOK_DELIM) (tokens @ [Some t])
                 (Suc position) bufsize w)"
  by pat_completeness auto
termination
proof -
  have shorter: "length r < length s" if "strtok s d = Some (t, r)" for s d t r
  proof -
    let ?start = "dropWhile (\<lambda>c. c \<in> set d) s"
    let ?tail = "dropWhile (\<lambda>c. c \<notin> set d) ?start"
    from that have ne: "?start \<noteq> []" and r: "r = drop 1 ?tail"
      by (simp_all add: strtok_def Let_def split: if_splits)
    have "length ?tail \<le> length ?start" by (rule length_dropWhile_le)
    moreover have "length ?start \<le> length s" by (rule length_dropWhile_le)
    moreover from ne have "0 < length ?start" by simp
    moreover have "length r = length ?tail - 1" unfolding r by (simp only: length_drop)
    ultimately show ?thesis by linarith
  qed
  have smaller: "(case strtok saved LSH_TOK_DELIM of None \<Rightarrow> 0 | Some (t, s) \<Rightarrow> Suc (length s))
      < Suc (length saved)" for saved
  proof (cases "strtok saved LSH_TOK_DELIM")
    case None
    then show ?thesis by simp
  next
    case (Some p)
    obtain t r where p: "p = (t, r)" by (cases p)
    from Some p shorter [of saved LSH_TOK_DELIM t r] show ?thesis by simp
  qed
  show ?thesis
    apply (relation "measure (\<lambda>(token, tokens, position, bufsize, w).
                   case token of None \<Rightarrow> 0 | Some (t, saved) \<Rightarrow> Suc (length saved))")
      apply simp
    subgoal for token tokens position bufsize w ts t saved
      using smaller [of saved] by (cases ts) simp
    subgoal for token tokens position bufsize w ts t saved
      using smaller [of saved] by (cases ts) simp
    done
qed

definition lsh_split_line :: "string \<Rightarrow> world \<Rightarrow> argv outcome" where
  "lsh_split_line line w =
     (case alloc w of
        (ok, w1) \<Rightarrow>
          if \<not> ok then allocation_error w1
          else split_loop (strtok (cstr line) LSH_TOK_DELIM) [] 0 LSH_TOK_BUFSIZE w1)"

subsection \<open>The builtin commands\<close>

definition builtin_str :: "string list" where
  "builtin_str = [''cd'', ''help'', ''exit'', ''history'']"

definition lsh_num_builtins :: nat where
  "lsh_num_builtins = length builtin_str"

text \<open>
  \<^verbatim>\<open>remove("history.txt")\<close>, \<^verbatim>\<open>fopen("history.txt", "r")\<close> and
  \<^verbatim>\<open>fopen("history.txt", "a")\<close> followed by one \<^verbatim>\<open>fprintf\<close> and \<^verbatim>\<open>fclose\<close>: the
  name is relative, so the file is the one in the working directory.
\<close>

definition remove_history :: "world \<Rightarrow> errtext + world" where
  "remove_history w =
     (case os_write_denied w (cwd w) of
        Some e \<Rightarrow> Inl e
      | None \<Rightarrow>
          (case files w (cwd w) of
             None \<Rightarrow> Inl ''No such file or directory''
           | Some content \<Rightarrow> Inr (w\<lparr>files := (files w)(cwd w := None)\<rparr>)))"

definition fopen_history_r :: "world \<Rightarrow> string option" where
  "fopen_history_r w =
     (case os_read_denied w (cwd w) of Some e \<Rightarrow> None | None \<Rightarrow> files w (cwd w))"

definition fopen_history_a :: "world \<Rightarrow> bool" where
  "fopen_history_a w = (os_write_denied w (cwd w) = None)"

definition fprintf_history :: "string \<Rightarrow> world \<Rightarrow> world" where
  "fprintf_history s w =
     w\<lparr>files := (files w)(cwd w \<mapsto>
          (case files w (cwd w) of None \<Rightarrow> [] | Some content \<Rightarrow> content) @ s)\<rparr>"

text \<open>
  \<^verbatim>\<open>getline\<close>: the next line of the file with its newline (the last line may have
  none) and what is left of the file, or \<open>None\<close> at the end of the file.
\<close>

fun getline :: "string \<Rightarrow> (string \<times> string) option" where
  "getline [] = None"
| "getline (c # cs) =
     (if c = CHR 0x0A then Some ([c], cs)
      else (case getline cs of
              None \<Rightarrow> Some ([c], [])
            | Some (l, rest) \<Rightarrow> Some (c # l, rest)))"

text \<open>The \<^verbatim>\<open>while (getline(...) != -1)\<close> of \<^verbatim>\<open>lsh_history\<close>.\<close>

function history_loop :: "string \<Rightarrow> world \<Rightarrow> world" where
  "history_loop fp w =
     (case getline fp of
        None \<Rightarrow> w
      | Some (line, rest) \<Rightarrow> history_loop rest (printf (cstr line) w))"
  by pat_completeness auto
termination
proof -
  have shorter: "length rest < length fp" if "getline fp = Some (line, rest)" for fp line rest
    using that
    by (induction fp arbitrary: line rest) (auto split: if_splits option.splits)
  show ?thesis
    apply (relation "measure (\<lambda>(fp, w). length fp)")
     apply simp
    subgoal for fp w p line rest
      using shorter [of fp line rest] by (cases p) simp
    done
qed

definition lsh_history :: "argv \<Rightarrow> world \<Rightarrow> int outcome" where
  "lsh_history args w0 =
     (let w = enter In_history w0 in
      case arg args 1 of
        Some a \<Rightarrow>
          if strcasecmp a ''-c'' = 0 then
            (case remove_history w of
               Inl e \<Rightarrow> Returns 1 (perror ''Error clearing history'' e w)
             | Inr w1 \<Rightarrow> Returns 1 (printf (''History cleared successfully.'' @ NL) w1))
          else
            Returns 1
              (fprintf_stderr (''Usage: history [-c]'' @ NL)
                 (fprintf_stderr (''Invalid option: '' @ a @ NL) w))
      | None \<Rightarrow>
          (let w1 = printf (''History of commands used:'' @ NL) w in
           case fopen_history_r w1 of
             None \<Rightarrow> Returns 1 (fprintf_stderr (''No history found.'' @ NL) w1)
           | Some fp \<Rightarrow> Returns 1 (history_loop fp w1)))"

text \<open>
  \<^verbatim>\<open>chdir(path)\<close>: the system resolves \<open>path\<close> from the working directory, and either
  refuses or makes the directory it found the working directory.
\<close>

definition chdir :: "string \<Rightarrow> world \<Rightarrow> errtext + world" where
  "chdir path w =
     (case os_chdir w (cwd w) path of
        Inl e \<Rightarrow> Inl e
      | Inr dir \<Rightarrow> Inr (w\<lparr>cwd := dir\<rparr>))"

definition lsh_cd :: "argv \<Rightarrow> world \<Rightarrow> int outcome" where
  "lsh_cd args w0 =
     (let w = enter In_cd w0 in
      case arg args 1 of
        None \<Rightarrow>
          Returns 1
            (fprintf_stderr (''lsh: expected argument to '' @ [CHR 0x22] @ ''cd'' @ [CHR 0x22] @ NL) w)
      | Some path \<Rightarrow>
          (case chdir path w of
             Inl e \<Rightarrow> Returns 1 (perror ''lsh'' e w)
           | Inr w1 \<Rightarrow> Returns 1 w1))"

definition lsh_help :: "argv \<Rightarrow> world \<Rightarrow> int outcome" where
  "lsh_help args w0 =
     (let w = enter In_help w0;
          w1 = printf (''Kritarth Dande'' @ [CHR 0x27] @ ''s LSH'' @ NL) w;
          w2 = printf (''Type program names and arguments, and hit enter.'' @ NL) w1;
          w3 = printf (''The following are built in:'' @ NL) w2;
          w4 = foldl (\<lambda>w i. printf (''  '' @ builtin_str ! i @ NL) w) w3 [0..<lsh_num_builtins];
          w5 = printf (''Use the man command for information on other programs.'' @ NL) w4
      in Returns 1 w5)"

definition lsh_exit :: "argv \<Rightarrow> world \<Rightarrow> int outcome" where
  "lsh_exit args w0 = Returns 0 (enter In_exit w0)"

definition builtin_func :: "(argv \<Rightarrow> world \<Rightarrow> int outcome) list" where
  "builtin_func = [lsh_cd, lsh_help, lsh_exit, lsh_history]"

subsection \<open>The launcher\<close>

text \<open>
  The \<^verbatim>\<open>do ... while (!WIFEXITED(status) && !WIFSIGNALED(status))\<close> of \<^verbatim>\<open>lsh_launch\<close>
  on the status reports the child will produce: each round takes the next report from
  \<^verbatim>\<open>waitpid\<close>; with none left \<^verbatim>\<open>waitpid\<close> does not return (\<open>None\<close>). The result is the
  status the loop ended on and the reports it did not take. Each call of \<^verbatim>\<open>waitpid\<close>
  is taken to succeed: the source does not look at its result, and after a failed call
  it would read a \<^verbatim>\<open>status\<close> that the call has not set.
\<close>

fun wait_loop :: "wstatus list \<Rightarrow> (wstatus \<times> wstatus list) option" where
  "wait_loop [] = None"
| "wait_loop (status # later) =
     (if \<not> WIFEXITED status \<and> \<not> WIFSIGNALED status then wait_loop later
      else Some (status, later))"

definition fork :: "world \<Rightarrow> fork_result \<times> world" where
  "fork w = (os_fork w (ticks w), w\<lparr>ticks := Suc (ticks w)\<rparr>)"

definition lsh_launch :: "argv \<Rightarrow> world \<Rightarrow> int outcome" where
  "lsh_launch args w0 =
     (case fork (enter In_launch w0) of
        (Fork_child None, w) \<Rightarrow> Execs args w
      | (Fork_child (Some e), w) \<Rightarrow> Exits EXIT_FAILURE (perror ''lsh'' e w)
      | (Fork_failed e, w) \<Rightarrow> Returns 1 (perror ''lsh'' e w)
      | (Fork_parent sts, w) \<Rightarrow>
          (case wait_loop sts of
             None \<Rightarrow> Blocks w
           | Some (status, later) \<Rightarrow> Returns 1 w))"

subsection \<open>The dispatcher\<close>

text \<open>The \<^verbatim>\<open>for\<close> of \<^verbatim>\<open>lsh_execute\<close>, from index \<open>i\<close> on; \<open>a0\<close> is \<^verbatim>\<open>args[0]\<close>.\<close>

function execute_loop :: "nat \<Rightarrow> string \<Rightarrow> argv \<Rightarrow> world \<Rightarrow> int outcome" where
  "execute_loop i a0 args w =
     (if i < lsh_num_builtins then
        if strcmp a0 (builtin_str ! i) = 0 then (builtin_func ! i) args w
        else execute_loop (Suc i) a0 args w
      else lsh_launch args w)"
  by pat_completeness auto
termination
  by (relation "measure (\<lambda>(i, a0, args, w). lsh_num_builtins - i)") simp_all

definition lsh_execute :: "argv \<Rightarrow> world \<Rightarrow> int outcome" where
  "lsh_execute args w =
     (case arg args 0 of
        None \<Rightarrow> Returns 1 w
      | Some a0 \<Rightarrow> execute_loop 0 a0 args w)"

subsection \<open>The loop\<close>

text \<open>
  \<^verbatim>\<open>getcwd(buf, len)\<close>: the working directory, or an error when the system refuses or
  the path with its NUL does not fit into the \<open>len\<close> bytes of the buffer.
\<close>

definition getcwd :: "nat \<Rightarrow> world \<Rightarrow> errtext + string" where
  "getcwd len w =
     (if len < length (cwd w) + 1 then Inl ''Numerical result out of range''
      else (case os_getcwd w (cwd w) of Some e \<Rightarrow> Inl e | None \<Rightarrow> Inr (cwd w)))"

text \<open>
  The block of \<^verbatim>\<open>lsh_loop\<close> under \<^verbatim>\<open>if (line[0] != '\0')\<close>: it appends the record of
  \<open>line\<close> to the history file.
\<close>

definition log_history :: "string \<Rightarrow> world \<Rightarrow> world" where
  "log_history line w =
     (if \<not> fopen_history_a w then w
      else
        (case (case getcwd 1024 w of
                 Inl e \<Rightarrow> (''unknown'', perror ''getcwd error'' e w)
               | Inr dir \<Rightarrow> (dir, w)) of
           (dir, w1) \<Rightarrow>
             (case timestamp w1 of
                (ts, w2) \<Rightarrow>
                  fprintf_history (''['' @ ts @ ''] ['' @ dir @ ''] '' @ cstr line @ NL) w2)))"

text \<open>One round of the \<^verbatim>\<open>do ... while (status)\<close> of \<^verbatim>\<open>lsh_loop\<close>: its \<open>status\<close>.\<close>

definition lsh_loop_body :: "world \<Rightarrow> int outcome" where
  "lsh_loop_body w =
     and_then (lsh_read_line (printf ''> '' w)) (\<lambda>line w1.
       and_then
         (lsh_split_line line
            (if (line @ [NUL]) ! 0 \<noteq> NUL then log_history line w1 else w1))
         lsh_execute)"

text \<open>
  \<^verbatim>\<open>lsh_loop\<close>. It need not end, so it is a partial function: \<open>None\<close> when the rounds
  go on for ever, else how the last round ended (\<open>Returns ()\<close> when its status was
  \<open>0\<close>).
\<close>

partial_function (option) lsh_loop :: "world \<Rightarrow> unit outcome option" where
  "lsh_loop w =
     (case lsh_loop_body w of
        Returns status w1 \<Rightarrow> if status \<noteq> 0 then lsh_loop w1 else Some (Returns () w1)
      | Exits c w1 \<Rightarrow> Some (Exits c w1)
      | Execs a w1 \<Rightarrow> Some (Execs a w1)
      | Blocks w1 \<Rightarrow> Some (Blocks w1)
      | Undefined_behaviour w1 \<Rightarrow> Some (Undefined_behaviour w1))"

text \<open>
  The equations of the four loops defined by \<^theory_text>\<open>function\<close> are applied by hand where
  a proof needs them.
\<close>

declare read_loop.simps [simp del]
declare split_loop.simps [simp del]
declare history_loop.simps [simp del]
declare execute_loop.simps [simp del]

subsection \<open>What the claims speak of\<close>

text \<open>The world in which a call ends.\<close>

fun world_of :: "'a outcome \<Rightarrow> world" where
  "world_of (Returns v w) = w"
| "world_of (Exits c w) = w"
| "world_of (Execs a w) = w"
| "world_of (Blocks w) = w"
| "world_of (Undefined_behaviour w) = w"

text \<open>
  The next \<^verbatim>\<open>fork\<close> gives control back to the shell: it fails, or it makes a child
  that the shell is the parent of and that exits or is terminated by a signal at some
  time.
\<close>

definition launch_comes_back :: "world \<Rightarrow> bool" where
  "launch_comes_back w =
     (case os_fork w (ticks w) of
        Fork_failed e \<Rightarrow> True
      | Fork_child r \<Rightarrow> False
      | Fork_parent sts \<Rightarrow> list_ex (\<lambda>s. WIFEXITED s \<or> WIFSIGNALED s) sts)"

text \<open>
  The routines a call of the dispatcher has entered: what it added to the log.
\<close>

definition ran_by :: "argv \<Rightarrow> world \<Rightarrow> routine list" where
  "ran_by args w = drop (length (entered w)) (entered (world_of (lsh_execute args w)))"

text \<open>
  The tokens of a line in the words of the spec: the maximal substrings that hold no
  delimiter, in the order in which they stand. A token starts at every index that holds
  a byte other than a delimiter and comes first in the line or behind a delimiter; it is
  the longest run of such bytes from there. This definition is not taken from the
  source: the tokenizer is compared with it.
\<close>

definition is_delim :: "char \<Rightarrow> bool" where
  "is_delim c = (c \<in> set LSH_TOK_DELIM)"

definition token_starts :: "string \<Rightarrow> nat list" where
  "token_starts l =
     filter (\<lambda>i. \<not> is_delim (l ! i) \<and> (i = 0 \<or> is_delim (l ! (i - 1)))) [0..<length l]"

definition maximal_tokens :: "string \<Rightarrow> string list" where
  "maximal_tokens l = map (\<lambda>i. takeWhile (\<lambda>c. \<not> is_delim c) (drop i l)) (token_starts l)"

text \<open>
  The same tokens, found in one pass from left to right; \<open>p\<close> says whether a token may
  start at the head of the list. It serves the proofs.
\<close>

fun scan :: "bool \<Rightarrow> string \<Rightarrow> string list" where
  "scan p [] = []"
| "scan p (c # cs) =
     (if \<not> is_delim c \<and> p then [takeWhile (\<lambda>c. \<not> is_delim c) (c # cs)] else [])
     @ scan (is_delim c) cs"

text \<open>The world right after a \<^verbatim>\<open>fork\<close> made by the launcher.\<close>

definition after_fork :: "world \<Rightarrow> world" where
  "after_fork w = (enter In_launch w)\<lparr>ticks := Suc (ticks w)\<rparr>"

text \<open>
  A world to run the program in: the shell sits in \<^verbatim>\<open>/home\<close> with an empty input; no
  history file exists; every allocation is granted; every \<^verbatim>\<open>fork\<close> makes a child that is
  stopped once and then exits with code \<open>0\<close>; \<^verbatim>\<open>/tmp\<close> is the one directory \<^verbatim>\<open>chdir\<close>
  accepts.
\<close>

definition example_world :: world where
  "example_world =
     \<lparr>stdin = [], stdout = [], stderr = [], cwd = ''/home'',
      files = (\<lambda>d. None), entered = [], ticks = 0,
      os_alloc = (\<lambda>n. True),
      os_fork = (\<lambda>n. Fork_parent [WStopped 19, WExited 0]),
      os_clock = (\<lambda>n. ''2024-01-01 00:00:00''),
      os_chdir = (\<lambda>d p. if p = ''/tmp'' then Inr ''/tmp''
                          else Inl ''No such file or directory''),
      os_getcwd = (\<lambda>d. None),
      os_write_denied = (\<lambda>d. None),
      os_read_denied = (\<lambda>d. None)\<rparr>"

text \<open>The same world with a history file of one record in \<^verbatim>\<open>/home\<close>.\<close>

definition history_world :: world where
  "history_world =
     example_world\<lparr>files := (\<lambda>d. if d = ''/home'' then Some (''[2024-01-01 00:00:00] [/home] ls'' @ NL) else None)\<rparr>"

text \<open>The same world where every \<^verbatim>\<open>fork\<close> fails.\<close>

definition fork_fails_world :: world where
  "fork_fails_world = example_world\<lparr>os_fork := (\<lambda>n. Fork_failed ''Resource temporarily unavailable'')\<rparr>"

text \<open>
  The same world with the line \<^verbatim>\<open>ls\<close> on its input, where \<^verbatim>\<open>getcwd\<close> fails; and one
  where the history file cannot be opened for writing.
\<close>

definition getcwd_fails_world :: world where
  "getcwd_fails_world =
     example_world\<lparr>stdin := ''ls'' @ NL, os_getcwd := (\<lambda>d. Some ''No such file or directory'')\<rparr>"

definition read_only_world :: world where
  "read_only_world =
     example_world\<lparr>stdin := ''ls'' @ NL, os_write_denied := (\<lambda>d. Some ''Permission denied'')\<rparr>"

section \<open>Facts about the model of the C library\<close>

lemma NUL_notin_cstr: "NUL \<notin> set (cstr s)"
  unfolding cstr_def by (induction s) auto

lemma cstr_id: "NUL \<notin> set s \<Longrightarrow> cstr s = s"
  unfolding cstr_def by (induction s) auto

lemma cstr_cstr: "cstr (cstr s) = cstr s"
  by (rule cstr_id) (rule NUL_notin_cstr)

lemma of_char_zero_iff: "(of_char c :: nat) = 0 \<longleftrightarrow> c = NUL"
proof -
  have "(of_char c :: nat) = of_char NUL \<longleftrightarrow> c = NUL"
    by (rule of_char_eq_iff)
  then show ?thesis by (simp add: NUL_def)
qed

lemma strcmp_bytes_zero_iff:
  "NUL \<notin> set a \<Longrightarrow> NUL \<notin> set b \<Longrightarrow> strcmp_bytes a b = 0 \<longleftrightarrow> a = b"
proof (induction a b rule: strcmp_bytes.induct)
  case 1
  then show ?case by simp
next
  case (2 b bs)
  then show ?case by (auto simp: of_char_zero_iff)
next
  case (3 a us)
  then show ?case by (auto simp: of_char_zero_iff)
next
  case (4 a us b bs)
  have "int (of_char a) - int (of_char b) = 0 \<longleftrightarrow> a = b"
    by (simp add: of_char_eq_iff)
  with 4 show ?case by (cases "a = b") auto
qed

lemma strcmp_zero_iff: "strcmp a b = 0 \<longleftrightarrow> cstr a = cstr b"
  unfolding strcmp_def by (rule strcmp_bytes_zero_iff) (rule NUL_notin_cstr)+

lemma arg_is_cstr: "arg args i = Some a \<Longrightarrow> cstr a = a"
  by (auto simp: arg_def cstr_cstr split: if_splits)

lemma tolower_eq_iff:
  "tolower c = d \<longleftrightarrow>
     (if 65 \<le> (of_char c :: nat) \<and> (of_char c :: nat) \<le> 90
      then (of_char c :: nat) + 32 = of_char d else c = d)"
proof (cases "65 \<le> (of_char c :: nat) \<and> (of_char c :: nat) \<le> 90")
  case True
  have "char_of ((of_char c :: nat) + 32) = d \<longleftrightarrow> (of_char c :: nat) + 32 = of_char d"
  proof
    assume "char_of ((of_char c :: nat) + 32) = d"
    then have "(of_char d :: nat) = ((of_char c :: nat) + 32) mod 256"
      by (auto simp: of_char_of)
    with True show "(of_char c :: nat) + 32 = of_char d" by simp
  next
    assume "(of_char c :: nat) + 32 = of_char d"
    then show "char_of ((of_char c :: nat) + 32) = d" by simp
  qed
  with True show ?thesis by (simp add: tolower_def Let_def)
next
  case False
  then show ?thesis by (auto simp: tolower_def Let_def)
qed

lemma of_char_nat_eq_iff: "(of_char c :: nat) = of_char d \<longleftrightarrow> c = d"
  by (rule of_char_eq_iff)

lemma tolower_minus: "tolower c = CHR ''-'' \<longleftrightarrow> c = CHR ''-''"
  unfolding tolower_eq_iff by auto

lemma tolower_c: "tolower c = CHR ''c'' \<longleftrightarrow> c = CHR ''c'' \<or> c = CHR ''C''"
proof -
  have "(of_char c :: nat) = 67 \<longleftrightarrow> c = CHR ''C''"
    using of_char_nat_eq_iff [of c "CHR ''C''"] by simp
  moreover have "(of_char c :: nat) = 99 \<longleftrightarrow> c = CHR ''c''"
    using of_char_nat_eq_iff [of c "CHR ''c''"] by simp
  ultimately show ?thesis unfolding tolower_eq_iff by auto
qed

lemma tolower_not_NUL: "c \<noteq> NUL \<Longrightarrow> tolower c \<noteq> NUL"
  unfolding tolower_eq_iff by (auto simp: NUL_def)

lemma strcasecmp_dash_c:
  "strcasecmp a ''-c'' = 0 \<longleftrightarrow> cstr a = ''-c'' \<or> cstr a = ''-C''"
proof -
  have c: "cstr ''-c'' = ''-c''" by (simp add: cstr_def NUL_def)
  have l: "map tolower ''-c'' = ''-c''" by (simp add: tolower_def)
  have n: "NUL \<notin> set (map tolower (cstr a))"
  proof
    assume "NUL \<in> set (map tolower (cstr a))"
    then obtain c where "c \<in> set (cstr a)" and "tolower c = NUL" by auto
    with NUL_notin_cstr [of a] tolower_not_NUL [of c] show False by auto
  qed
  have "strcasecmp a ''-c'' = 0 \<longleftrightarrow> map tolower (cstr a) = ''-c''"
    unfolding strcasecmp_def c l
    by (rule strcmp_bytes_zero_iff [OF n]) (simp add: NUL_def)
  also have "\<dots> \<longleftrightarrow> cstr a = ''-c'' \<or> cstr a = ''-C''"
    by (auto simp: map_eq_Cons_conv tolower_minus tolower_c)
  finally show ?thesis .
qed

section \<open>Facts about the tokenizer and the line reader\<close>

lemma scan_by_index:
  "map (\<lambda>i. takeWhile (\<lambda>c. \<not> is_delim c) (drop i l))
     (filter (\<lambda>i. \<not> is_delim (l ! i) \<and> (if i = 0 then p else is_delim (l ! (i - 1))))
        [0..<length l])
   = scan p l"
proof (induction l arbitrary: p)
  case Nil
  show ?case by simp
next
  case (Cons c cs)
  have upt: "[0..<length (c # cs)] = 0 # map Suc [0..<length cs]"
    by (simp add: upt_conv_Cons map_Suc_upt del: upt_Suc)
  have tail: "map (\<lambda>i. takeWhile (\<lambda>c. \<not> is_delim c) (drop i (c # cs)))
       (filter (\<lambda>i. \<not> is_delim ((c # cs) ! i) \<and>
                  (if i = 0 then p else is_delim ((c # cs) ! (i - 1))))
          (map Suc [0..<length cs]))
     = scan (is_delim c) cs"
    unfolding Cons.IH [of "is_delim c", symmetric]
    by (simp add: filter_map comp_def nth_Cons' cong: if_cong)
  show ?case
    unfolding upt using tail by simp
qed

lemma maximal_tokens_scan: "maximal_tokens l = scan True l"
  unfolding maximal_tokens_def token_starts_def scan_by_index [of l True, symmetric]
  by (rule arg_cong [where f = "map _"], rule filter_cong) auto

lemma scan_after_token:
  "scan False cs = scan True (drop 1 (dropWhile (\<lambda>c. \<not> is_delim c) cs))"
  by (induction cs) auto

lemma strtok_delim:
  "is_delim c \<Longrightarrow> strtok (c # cs) LSH_TOK_DELIM = strtok cs LSH_TOK_DELIM"
  by (simp add: strtok_def is_delim_def)

lemma strtok_token:
  "\<not> is_delim c \<Longrightarrow>
     strtok (c # cs) LSH_TOK_DELIM
       = Some (c # takeWhile (\<lambda>c. \<not> is_delim c) cs,
               drop 1 (dropWhile (\<lambda>c. \<not> is_delim c) cs))"
  by (simp add: strtok_def is_delim_def)

lemma scan_strtok:
  "(case strtok s LSH_TOK_DELIM of None \<Rightarrow> [] | Some (t, r) \<Rightarrow> t # scan True r) = scan True s"
proof (induction s)
  case Nil
  show ?case by (simp add: strtok_def)
next
  case (Cons c cs)
  show ?case
  proof (cases "is_delim c")
    case True
    with Cons show ?thesis by (simp add: strtok_delim)
  next
    case False
    then show ?thesis by (simp add: strtok_token scan_after_token [of cs])
  qed
qed

lemma scan_nonempty: "t \<in> set (scan p l) \<Longrightarrow> t \<noteq> [] \<and> (\<forall>c\<in>set t. \<not> is_delim c)"
proof (induction l arbitrary: p)
  case Nil
  then show ?case by simp
next
  case (Cons c cs)
  then show ?case by (auto split: if_splits dest: set_takeWhileD)
qed

lemma scan_only_delims: "\<forall>c\<in>set l. is_delim c \<Longrightarrow> scan p l = []"
  by (induction l arbitrary: p) auto

lemma length_scan: "length (scan p l) \<le> length l"
  by (induction l arbitrary: p) (auto simp: le_SucI)

lemma maximal_tokens_only_delims:
  "\<forall>c\<in>set l. c \<in> set LSH_TOK_DELIM \<Longrightarrow> maximal_tokens l = []"
  unfolding maximal_tokens_scan by (rule scan_only_delims) (simp add: is_delim_def)

lemma maximal_tokens_shape:
  "t \<in> set (maximal_tokens l) \<Longrightarrow> t \<noteq> [] \<and> (\<forall>c\<in>set t. c \<notin> set LSH_TOK_DELIM)"
  unfolding maximal_tokens_scan using scan_nonempty [of t True l] by (simp add: is_delim_def)

lemma strtok_shorter: "strtok s d = Some (t, r) \<Longrightarrow> length r < length s"
proof -
  assume a: "strtok s d = Some (t, r)"
  let ?start = "dropWhile (\<lambda>c. c \<in> set d) s"
  let ?tail = "dropWhile (\<lambda>c. c \<notin> set d) ?start"
  from a have ne: "?start \<noteq> []" and r: "r = drop 1 ?tail"
    by (simp_all add: strtok_def Let_def split: if_splits)
  have "length ?tail \<le> length ?start" by (rule length_dropWhile_le)
  moreover have "length ?start \<le> length s" by (rule length_dropWhile_le)
  moreover from ne have "0 < length ?start" by simp
  moreover have "length r = length ?tail - 1" unfolding r by (simp only: length_drop)
  ultimately show ?thesis by linarith
qed

lemma split_loop_None: "split_loop None acc pos bs w = Returns (acc @ [None]) w"
  by (simp add: split_loop.simps [of None])

lemma split_loop_Some:
  "split_loop (Some (t, r)) acc pos bs w =
     (if bs \<le> Suc pos then
        if INT_MAX < bs + LSH_TOK_BUFSIZE then Undefined_behaviour w
        else (case alloc w of
                (ok, w1) \<Rightarrow>
                  if \<not> ok then allocation_error w1
                  else split_loop (strtok r LSH_TOK_DELIM) (acc @ [Some t]) (Suc pos)
                         (bs + LSH_TOK_BUFSIZE) w1)
      else split_loop (strtok r LSH_TOK_DELIM) (acc @ [Some t]) (Suc pos) bs w)"
  by (simp add: split_loop.simps [of "Some (t, r)"])

lemma split_loop_result:
  "split_loop (strtok s LSH_TOK_DELIM) acc pos bs w = Returns args w' \<Longrightarrow>
     args = acc @ map Some (scan True s) @ [None]"
proof (induction "length s" arbitrary: s acc pos bs w rule: less_induct)
  case less
  show ?case
  proof (cases "strtok s LSH_TOK_DELIM")
    case None
    with scan_strtok [of s] have "scan True s = []" by simp
    with less.prems None show ?thesis by (simp add: split_loop_None)
  next
    case (Some p)
    obtain t r where p: "p = (t, r)" by (cases p)
    from Some p have tok: "strtok s LSH_TOK_DELIM = Some (t, r)" by simp
    from strtok_shorter [OF tok] have shorter: "length r < length s" .
    from scan_strtok [of s] tok have sc: "scan True s = t # scan True r" by simp
    have step: "args = (acc @ [Some t]) @ map Some (scan True r) @ [None]"
      if "split_loop (strtok r LSH_TOK_DELIM) (acc @ [Some t]) (Suc pos) b v = Returns args w'"
      for b v
      using less.hyps [OF shorter that] .
    from less.prems show ?thesis
      unfolding tok split_loop_Some sc
      by (auto simp: allocation_error_def split: if_splits prod.splits dest: step)
  qed
qed

lemma split_loop_returns:
  "\<forall>k. os_alloc w k \<Longrightarrow> pos < bs \<Longrightarrow> pos + length (scan True s) + LSH_TOK_BUFSIZE \<le> INT_MAX \<Longrightarrow>
     \<exists>n. split_loop (strtok s LSH_TOK_DELIM) acc pos bs w
           = Returns (acc @ map Some (scan True s) @ [None]) (w\<lparr>ticks := ticks w + n\<rparr>)"
proof (induction "length s" arbitrary: s acc pos bs w rule: less_induct)
  case less
  show ?case
  proof (cases "strtok s LSH_TOK_DELIM")
    case None
    with scan_strtok [of s] have "scan True s = []" by simp
    with None have "split_loop (strtok s LSH_TOK_DELIM) acc pos bs w
        = Returns (acc @ map Some (scan True s) @ [None]) (w\<lparr>ticks := ticks w + 0\<rparr>)"
      by (simp add: split_loop_None)
    then show ?thesis by blast
  next
    case (Some p)
    obtain t r where p: "p = (t, r)" by (cases p)
    from Some p have tok: "strtok s LSH_TOK_DELIM = Some (t, r)" by simp
    from strtok_shorter [OF tok] have shorter: "length r < length s" .
    from scan_strtok [of s] tok have sc: "scan True s = t # scan True r" by simp
    show ?thesis
    proof (cases "bs \<le> Suc pos")
      case True
      with less.prems(2) have bs: "bs = Suc pos" by simp
      from less.prems(3) sc bs have fits: "\<not> INT_MAX < bs + LSH_TOK_BUFSIZE" by simp
      let ?w1 = "w\<lparr>ticks := Suc (ticks w)\<rparr>"
      from less.prems(1) have al: "alloc w = (True, ?w1)" by (simp add: alloc_def)
      have "\<forall>k. os_alloc ?w1 k" using less.prems(1) by simp
      moreover have "Suc pos < bs + LSH_TOK_BUFSIZE" using bs by (simp add: LSH_TOK_BUFSIZE_def)
      moreover have "Suc pos + length (scan True r) + LSH_TOK_BUFSIZE \<le> INT_MAX"
        using less.prems(3) sc by simp
      ultimately obtain n where
        "split_loop (strtok r LSH_TOK_DELIM) (acc @ [Some t]) (Suc pos) (bs + LSH_TOK_BUFSIZE) ?w1
           = Returns ((acc @ [Some t]) @ map Some (scan True r) @ [None])
               (?w1\<lparr>ticks := ticks ?w1 + n\<rparr>)"
        using less.hyps [OF shorter, of ?w1 "Suc pos" "bs + LSH_TOK_BUFSIZE" "acc @ [Some t]"]
        by blast
      with True fits al have "split_loop (strtok s LSH_TOK_DELIM) acc pos bs w
          = Returns (acc @ map Some (scan True s) @ [None]) (w\<lparr>ticks := ticks w + Suc n\<rparr>)"
        unfolding tok split_loop_Some sc by simp
      then show ?thesis by blast
    next
      case False
      then have "Suc pos < bs" by simp
      moreover have "Suc pos + length (scan True r) + LSH_TOK_BUFSIZE \<le> INT_MAX"
        using less.prems(3) sc by simp
      ultimately obtain n where
        "split_loop (strtok r LSH_TOK_DELIM) (acc @ [Some t]) (Suc pos) bs w
           = Returns ((acc @ [Some t]) @ map Some (scan True r) @ [None])
               (w\<lparr>ticks := ticks w + n\<rparr>)"
        using less.hyps [OF shorter less.prems(1), of "Suc pos" bs "acc @ [Some t]"]
        by blast
      with False have "split_loop (strtok s LSH_TOK_DELIM) acc pos bs w
          = Returns (acc @ map Some (scan True s) @ [None]) (w\<lparr>ticks := ticks w + n\<rparr>)"
        unfolding tok split_loop_Some sc by simp
      then show ?thesis by blast
    qed
  qed
qed

lemma lsh_split_line_result:
  "lsh_split_line line w = Returns args w' \<Longrightarrow>
     args = map Some (maximal_tokens (cstr line)) @ [None]"
  using split_loop_result [of "cstr line" "[]"]
  by (auto simp: lsh_split_line_def maximal_tokens_scan allocation_error_def
      split: prod.splits if_splits)

lemma lsh_split_line_returns:
  assumes "\<forall>k. os_alloc w k" and "length line + LSH_TOK_BUFSIZE \<le> INT_MAX"
  shows "\<exists>n. lsh_split_line line w
           = Returns (map Some (maximal_tokens (cstr line)) @ [None]) (w\<lparr>ticks := ticks w + n\<rparr>)"
proof -
  let ?w1 = "w\<lparr>ticks := Suc (ticks w)\<rparr>"
  from assms(1) have al: "alloc w = (True, ?w1)" by (simp add: alloc_def)
  have "length (cstr line) \<le> length line"
    unfolding cstr_def by (rule length_takeWhile_le)
  with length_scan [of True "cstr line"] assms(2)
  have "0 + length (scan True (cstr line)) + LSH_TOK_BUFSIZE \<le> INT_MAX" by simp
  moreover have "\<forall>k. os_alloc ?w1 k" using assms(1) by simp
  moreover have "0 < LSH_TOK_BUFSIZE" by (simp add: LSH_TOK_BUFSIZE_def)
  ultimately obtain n where
    "split_loop (strtok (cstr line) LSH_TOK_DELIM) [] 0 LSH_TOK_BUFSIZE ?w1
       = Returns ([] @ map Some (scan True (cstr line)) @ [None]) (?w1\<lparr>ticks := ticks ?w1 + n\<rparr>)"
    using split_loop_returns [of ?w1 0 LSH_TOK_BUFSIZE "cstr line" "[]"] by blast
  with al have "lsh_split_line line w
      = Returns (map Some (maximal_tokens (cstr line)) @ [None]) (w\<lparr>ticks := ticks w + Suc n\<rparr>)"
    by (simp add: lsh_split_line_def maximal_tokens_scan)
  then show ?thesis by blast
qed

lemma read_loop_eof: "stdin w = [] \<Longrightarrow> read_loop buf pos bs w = Returns buf w"
  by (simp add: read_loop.simps [of buf pos bs w] getchar_def)

lemma read_loop_newline:
  "stdin w = CHR 0x0A # rest \<Longrightarrow> read_loop buf pos bs w = Returns buf (w\<lparr>stdin := rest\<rparr>)"
  by (simp add: read_loop.simps [of buf pos bs w] getchar_def)

lemma read_loop_char:
  "stdin w = c # cs \<Longrightarrow> c \<noteq> CHR 0x0A \<Longrightarrow>
     read_loop buf pos bs w =
       (if bs \<le> Suc pos then
          if INT_MAX < bs + LSH_RL_BUFSIZE then Undefined_behaviour (w\<lparr>stdin := cs\<rparr>)
          else (case alloc (w\<lparr>stdin := cs\<rparr>) of
                  (ok, w2) \<Rightarrow>
                    if \<not> ok then allocation_error w2
                    else read_loop (buf @ [c]) (Suc pos) (bs + LSH_RL_BUFSIZE) w2)
        else read_loop (buf @ [c]) (Suc pos) bs (w\<lparr>stdin := cs\<rparr>))"
  by (simp add: read_loop.simps [of buf pos bs w] getchar_def)

lemma read_loop_returns:
  "CHR 0x0A \<notin> set l \<Longrightarrow> pos < bs \<Longrightarrow> pos + length l + LSH_RL_BUFSIZE \<le> INT_MAX \<Longrightarrow>
     \<exists>n. \<forall>w rest buf. stdin w = l @ rest \<longrightarrow> (rest = [] \<or> hd rest = CHR 0x0A) \<longrightarrow>
            (\<forall>k. os_alloc w k) \<longrightarrow>
            read_loop buf pos bs w
              = Returns (buf @ l) (w\<lparr>stdin := drop 1 rest, ticks := ticks w + n\<rparr>)"
proof (induction l arbitrary: pos bs)
  case Nil
  have "read_loop buf pos bs w = Returns (buf @ []) (w\<lparr>stdin := drop 1 rest, ticks := ticks w + 0\<rparr>)"
    if "stdin w = [] @ rest" "rest = [] \<or> hd rest = CHR 0x0A" for w :: world and rest buf
  proof (cases rest)
    case Nil
    with that show ?thesis by (simp add: read_loop_eof)
  next
    case (Cons c cs)
    with that have "stdin w = CHR 0x0A # cs" by simp
    from read_loop_newline [OF this] Cons show ?thesis by simp
  qed
  then show ?case by blast
next
  case (Cons c l)
  from Cons.prems have c: "c \<noteq> CHR 0x0A" and l: "CHR 0x0A \<notin> set l" by auto
  show ?case
  proof (cases "bs \<le> Suc pos")
    case True
    with Cons.prems(2) have bs: "bs = Suc pos" by simp
    from Cons.prems(3) bs have fits: "\<not> INT_MAX < bs + LSH_RL_BUFSIZE" by simp
    have "Suc pos < bs + LSH_RL_BUFSIZE" using bs by (simp add: LSH_RL_BUFSIZE_def)
    moreover have "Suc pos + length l + LSH_RL_BUFSIZE \<le> INT_MAX" using Cons.prems(3) by simp
    ultimately obtain n where n: "\<And>w rest buf. stdin w = l @ rest \<Longrightarrow>
        rest = [] \<or> hd rest = CHR 0x0A \<Longrightarrow> \<forall>k. os_alloc w k \<Longrightarrow>
        read_loop buf (Suc pos) (bs + LSH_RL_BUFSIZE) w
          = Returns (buf @ l) (w\<lparr>stdin := drop 1 rest, ticks := ticks w + n\<rparr>)"
      using Cons.IH [OF l, of "Suc pos" "bs + LSH_RL_BUFSIZE"] by blast
    have "read_loop buf pos bs w
        = Returns (buf @ c # l) (w\<lparr>stdin := drop 1 rest, ticks := ticks w + Suc n\<rparr>)"
      if w: "stdin w = (c # l) @ rest" "rest = [] \<or> hd rest = CHR 0x0A" "\<forall>k. os_alloc w k"
      for w :: world and rest buf
    proof -
      let ?w2 = "w\<lparr>stdin := l @ rest, ticks := Suc (ticks w)\<rparr>"
      from w(1) have s: "stdin w = c # (l @ rest)" by simp
      from w(3) have al: "alloc (w\<lparr>stdin := l @ rest\<rparr>) = (True, ?w2)" by (simp add: alloc_def)
      have "read_loop (buf @ [c]) (Suc pos) (bs + LSH_RL_BUFSIZE) ?w2
          = Returns ((buf @ [c]) @ l) (?w2\<lparr>stdin := drop 1 rest, ticks := ticks ?w2 + n\<rparr>)"
        using w by (intro n) simp_all
      with True fits al show ?thesis
        unfolding read_loop_char [OF s c] by simp
    qed
    then show ?thesis by blast
  next
    case False
    then have "Suc pos < bs" by simp
    moreover have "Suc pos + length l + LSH_RL_BUFSIZE \<le> INT_MAX" using Cons.prems(3) by simp
    ultimately obtain n where n: "\<And>w rest buf. stdin w = l @ rest \<Longrightarrow>
        rest = [] \<or> hd rest = CHR 0x0A \<Longrightarrow> \<forall>k. os_alloc w k \<Longrightarrow>
        read_loop buf (Suc pos) bs w
          = Returns (buf @ l) (w\<lparr>stdin := drop 1 rest, ticks := ticks w + n\<rparr>)"
      using Cons.IH [OF l, of "Suc pos" bs] by blast
    have "read_loop buf pos bs w
        = Returns (buf @ c # l) (w\<lparr>stdin := drop 1 rest, ticks := ticks w + n\<rparr>)"
      if w: "stdin w = (c # l) @ rest" "rest = [] \<or> hd rest = CHR 0x0A" "\<forall>k. os_alloc w k"
      for w :: world and rest buf
    proof -
      let ?w1 = "w\<lparr>stdin := l @ rest\<rparr>"
      from w(1) have s: "stdin w = c # (l @ rest)" by simp
      have "read_loop (buf @ [c]) (Suc pos) bs ?w1
          = Returns ((buf @ [c]) @ l) (?w1\<lparr>stdin := drop 1 rest, ticks := ticks ?w1 + n\<rparr>)"
        using w by (intro n) simp_all
      with False show ?thesis
        unfolding read_loop_char [OF s c] by simp
    qed
    then show ?thesis by blast
  qed
qed

lemma lsh_read_line_returns:
  assumes "CHR 0x0A \<notin> set l" and "length l + LSH_RL_BUFSIZE \<le> INT_MAX"
  shows "\<exists>n. \<forall>w rest. stdin w = l @ rest \<longrightarrow> (rest = [] \<or> hd rest = CHR 0x0A) \<longrightarrow>
            (\<forall>k. os_alloc w k) \<longrightarrow>
            lsh_read_line w = Returns l (w\<lparr>stdin := drop 1 rest, ticks := ticks w + n\<rparr>)"
proof -
  have "0 < LSH_RL_BUFSIZE" by (simp add: LSH_RL_BUFSIZE_def)
  moreover from assms(2) have "0 + length l + LSH_RL_BUFSIZE \<le> INT_MAX" by simp
  ultimately obtain n where n: "\<And>w rest buf. stdin w = l @ rest \<Longrightarrow>
        rest = [] \<or> hd rest = CHR 0x0A \<Longrightarrow> \<forall>k. os_alloc w k \<Longrightarrow>
        read_loop buf 0 LSH_RL_BUFSIZE w
          = Returns (buf @ l) (w\<lparr>stdin := drop 1 rest, ticks := ticks w + n\<rparr>)"
    using read_loop_returns [OF assms(1), of 0 LSH_RL_BUFSIZE] by blast
  have "lsh_read_line w = Returns l (w\<lparr>stdin := drop 1 rest, ticks := ticks w + Suc n\<rparr>)"
    if w: "stdin w = l @ rest" "rest = [] \<or> hd rest = CHR 0x0A" "\<forall>k. os_alloc w k"
    for w :: world and rest
  proof -
    let ?w1 = "w\<lparr>ticks := Suc (ticks w)\<rparr>"
    from w(3) have al: "alloc w = (True, ?w1)" by (simp add: alloc_def)
    have "read_loop [] 0 LSH_RL_BUFSIZE ?w1
        = Returns ([] @ l) (?w1\<lparr>stdin := drop 1 rest, ticks := ticks ?w1 + n\<rparr>)"
      using w by (intro n) simp_all
    with al show ?thesis by (simp add: lsh_read_line_def)
  qed
  then show ?thesis by blast
qed

section \<open>Facts about the dispatcher, the handlers and the launcher\<close>

lemma cstr_literals:
  "cstr ''cd'' = ''cd''" "cstr ''help'' = ''help''" "cstr ''exit'' = ''exit''"
  "cstr ''history'' = ''history''"
  by (simp_all add: cstr_def NUL_def)

lemma execute_loop_dispatch:
  "cstr a0 = a0 \<Longrightarrow> execute_loop 0 a0 args w =
     (if a0 = ''cd'' then lsh_cd args w
      else if a0 = ''help'' then lsh_help args w
      else if a0 = ''exit'' then lsh_exit args w
      else if a0 = ''history'' then lsh_history args w
      else lsh_launch args w)"
  by (simp add: execute_loop.simps [of 0] execute_loop.simps [of "Suc 0"]
      execute_loop.simps [of "Suc (Suc 0)"] execute_loop.simps [of "Suc (Suc (Suc 0))"]
      execute_loop.simps [of "Suc (Suc (Suc (Suc 0)))"]
      lsh_num_builtins_def builtin_str_def builtin_func_def strcmp_zero_iff cstr_literals)

lemma lsh_execute_dispatch:
  "lsh_execute args w =
     (case arg args 0 of
        None \<Rightarrow> Returns 1 w
      | Some a0 \<Rightarrow>
          if a0 = ''cd'' then lsh_cd args w
          else if a0 = ''help'' then lsh_help args w
          else if a0 = ''exit'' then lsh_exit args w
          else if a0 = ''history'' then lsh_history args w
          else lsh_launch args w)"
proof (cases "arg args 0")
  case None
  then show ?thesis by (simp add: lsh_execute_def)
next
  case (Some a0)
  then have "cstr a0 = a0" by (rule arg_is_cstr)
  with Some show ?thesis by (simp add: lsh_execute_def execute_loop_dispatch)
qed

lemma lsh_cd_returns: "\<exists>w'. lsh_cd args w = Returns 1 w' \<and> entered w' = entered w @ [In_cd]"
  by (auto simp: lsh_cd_def Let_def enter_def fprintf_stderr_def perror_def chdir_def
      split: option.splits sum.splits)

lemma entered_history_loop: "entered (history_loop fp w) = entered w"
proof (induction fp w rule: history_loop.induct)
  case (1 fp w)
  show ?case
  proof (cases "getline fp")
    case None
    then show ?thesis by (simp add: history_loop.simps [of fp])
  next
    case (Some p)
    obtain line rest where p: "p = (line, rest)" by (cases p)
    from 1 [OF Some p [symmetric]] Some p show ?thesis
      by (simp add: history_loop.simps [of fp] printf_def)
  qed
qed

lemma lsh_history_returns:
  "\<exists>w'. lsh_history args w = Returns 1 w' \<and> entered w' = entered w @ [In_history]"
  by (auto simp: lsh_history_def Let_def enter_def fprintf_stderr_def perror_def printf_def
      remove_history_def entered_history_loop
      split: option.splits sum.splits)

lemma lsh_help_returns:
  "\<exists>w'. lsh_help args w = Returns 1 w' \<and> entered w' = entered w @ [In_help]"
proof -
  have "entered (foldl (\<lambda>w i. printf (f i) w) v xs) = entered v" for f v and xs :: "nat list"
    by (induction xs arbitrary: v) (simp_all add: printf_def)
  then show ?thesis
    by (simp add: lsh_help_def Let_def enter_def printf_def)
qed

lemma lsh_exit_returns: "lsh_exit args w = Returns 0 (enter In_exit w)"
  by (simp add: lsh_exit_def)

lemma wait_loop_None_iff:
  "wait_loop sts = None \<longleftrightarrow> \<not> list_ex (\<lambda>s. WIFEXITED s \<or> WIFSIGNALED s) sts"
  by (induction sts) auto

lemma lsh_launch_entered: "entered (world_of (lsh_launch args w)) = entered w @ [In_launch]"
  by (simp add: lsh_launch_def fork_def enter_def perror_def fprintf_stderr_def
      split: fork_result.splits option.splits prod.splits)

lemma lsh_launch_returns_1: "lsh_launch args w = Returns r w' \<Longrightarrow> r = 1"
  by (auto simp: lsh_launch_def fork_def split: fork_result.splits option.splits prod.splits)

lemma lsh_launch_comes_back:
  "launch_comes_back w \<Longrightarrow> \<exists>w'. lsh_launch args w = Returns 1 w'"
  by (auto simp: lsh_launch_def fork_def launch_comes_back_def enter_def wait_loop_None_iff
      split: fork_result.splits option.splits prod.splits)

lemma entered_lsh_cd: "entered (world_of (lsh_cd args w)) = entered w @ [In_cd]"
  using lsh_cd_returns [of args w] by auto

lemma entered_lsh_help: "entered (world_of (lsh_help args w)) = entered w @ [In_help]"
  using lsh_help_returns [of args w] by auto

lemma entered_lsh_history: "entered (world_of (lsh_history args w)) = entered w @ [In_history]"
  using lsh_history_returns [of args w] by auto

lemma entered_lsh_exit: "entered (world_of (lsh_exit args w)) = entered w @ [In_exit]"
  by (simp add: lsh_exit_def enter_def)

lemma ran_by_dispatch:
  "ran_by args w =
     (case arg args 0 of
        None \<Rightarrow> []
      | Some a0 \<Rightarrow>
          if a0 = ''cd'' then [In_cd]
          else if a0 = ''help'' then [In_help]
          else if a0 = ''exit'' then [In_exit]
          else if a0 = ''history'' then [In_history]
          else [In_launch])"
  by (simp add: ran_by_def lsh_execute_dispatch entered_lsh_cd entered_lsh_help
      entered_lsh_history entered_lsh_exit lsh_launch_entered split: option.splits)

lemma wait_loop_dropWhile:
  "wait_loop sts =
     (case dropWhile (\<lambda>s. \<not> WIFEXITED s \<and> \<not> WIFSIGNALED s) sts of
        [] \<Rightarrow> None
      | s # later \<Rightarrow> Some (s, later))"
  by (induction sts) auto

lemma lsh_launch_parent:
  "os_fork w (ticks w) = Fork_parent sts \<Longrightarrow>
     lsh_launch args w =
       (if list_ex (\<lambda>s. WIFEXITED s \<or> WIFSIGNALED s) sts then Returns 1 (after_fork w)
        else Blocks (after_fork w))"
  using wait_loop_None_iff [of sts]
  by (auto simp: lsh_launch_def fork_def enter_def after_fork_def split: option.splits)

lemma lsh_launch_fork_failed:
  "os_fork w (ticks w) = Fork_failed e \<Longrightarrow>
     lsh_launch args w = Returns 1 (perror ''lsh'' e (after_fork w))"
  by (simp add: lsh_launch_def fork_def enter_def after_fork_def)

lemma lsh_launch_child:
  "os_fork w (ticks w) = Fork_child None \<Longrightarrow> lsh_launch args w = Execs args (after_fork w)"
  by (simp add: lsh_launch_def fork_def enter_def after_fork_def)

lemma remove_history_files: "remove_history w = Inr w1 \<Longrightarrow> files w1 (cwd w) = None"
  by (auto simp: remove_history_def split: option.splits)

lemma cwd_history_loop: "cwd (history_loop fp w) = cwd w"
proof (induction fp w rule: history_loop.induct)
  case (1 fp w)
  show ?case
  proof (cases "getline fp")
    case None
    then show ?thesis by (simp add: history_loop.simps [of fp])
  next
    case (Some p)
    obtain line rest where p: "p = (line, rest)" by (cases p)
    from 1 [OF Some p [symmetric]] Some p show ?thesis
      by (simp add: history_loop.simps [of fp] printf_def)
  qed
qed

lemma cwd_lsh_history: "cwd (world_of (lsh_history args w)) = cwd w"
  by (auto simp: lsh_history_def Let_def enter_def fprintf_stderr_def perror_def printf_def
      remove_history_def cwd_history_loop split: option.splits sum.splits)

lemma cwd_lsh_help: "cwd (world_of (lsh_help args w)) = cwd w"
proof -
  have "cwd (foldl (\<lambda>w i. printf (f i) w) v xs) = cwd v" for f v and xs :: "nat list"
    by (induction xs arbitrary: v) (simp_all add: printf_def)
  then show ?thesis
    by (simp add: lsh_help_def Let_def enter_def printf_def)
qed

lemma cwd_lsh_exit: "cwd (world_of (lsh_exit args w)) = cwd w"
  by (simp add: lsh_exit_def enter_def)

lemma cwd_lsh_launch: "cwd (world_of (lsh_launch args w)) = cwd w"
  by (simp add: lsh_launch_def fork_def enter_def perror_def fprintf_stderr_def
      split: fork_result.splits option.splits prod.splits)

lemma cwd_lsh_execute:
  "arg args 0 \<noteq> Some ''cd'' \<Longrightarrow> cwd (world_of (lsh_execute args w)) = cwd w"
  by (simp add: lsh_execute_dispatch cwd_lsh_history cwd_lsh_help cwd_lsh_exit cwd_lsh_launch
      split: option.splits)

lemma lsh_execute_empty: "lsh_execute [None] w = Returns 1 w \<and> ran_by [None] w = []"
  by (simp add: ran_by_dispatch lsh_execute_dispatch arg_def)

section \<open>Facts about the loop\<close>

lemma and_then_Returns:
  "and_then r f = Returns v w' \<Longrightarrow> \<exists>a w1. r = Returns a w1 \<and> f a w1 = Returns v w'"
  by (cases r) (simp_all add: and_then_def)

lemma and_then_Returns_eq: "and_then (Returns a w1) f = f a w1"
  by (simp add: and_then_def)

lemma lsh_execute_zero: "lsh_execute args w = Returns 0 w' \<Longrightarrow> w' = enter In_exit w"
  using lsh_cd_returns [of args w] lsh_help_returns [of args w] lsh_history_returns [of args w]
    lsh_launch_returns_1 [of args w 0 w']
  by (auto simp: lsh_execute_dispatch lsh_exit_returns split: option.splits if_splits)

lemma lsh_loop_body_zero:
  "lsh_loop_body w = Returns 0 w' \<Longrightarrow> entered w' \<noteq> [] \<and> last (entered w') = In_exit"
proof -
  assume "lsh_loop_body w = Returns 0 w'"
  then obtain line w1 where
    "and_then (lsh_split_line line
        (if (line @ [NUL]) ! 0 \<noteq> NUL then log_history line w1 else w1)) lsh_execute
      = Returns 0 w'"
    unfolding lsh_loop_body_def by (blast dest: and_then_Returns)
  then obtain args w3 where "lsh_execute args w3 = Returns 0 w'"
    by (blast dest: and_then_Returns)
  then have "w' = enter In_exit w3" by (rule lsh_execute_zero)
  then show ?thesis by (simp add: enter_def)
qed

lemma log_history_not_opened:
  "os_write_denied w (cwd w) \<noteq> None \<Longrightarrow> log_history line w = w"
  by (simp add: log_history_def fopen_history_a_def)

lemma log_history_opened:
  "os_write_denied w (cwd w) = None \<Longrightarrow>
     log_history line w =
       (case getcwd 1024 w of
          Inl e \<Rightarrow>
            fprintf_history
              (''['' @ os_clock w (ticks w) @ ''] [unknown] '' @ cstr line @ NL)
              ((perror ''getcwd error'' e w)\<lparr>ticks := Suc (ticks w)\<rparr>)
        | Inr dir \<Rightarrow>
            fprintf_history
              (''['' @ os_clock w (ticks w) @ ''] ['' @ dir @ ''] '' @ cstr line @ NL)
              (w\<lparr>ticks := Suc (ticks w)\<rparr>))"
  by (simp add: log_history_def fopen_history_a_def timestamp_def perror_def fprintf_stderr_def
      split: sum.splits)

lemma getcwd_Inr: "getcwd len w = Inr dir \<Longrightarrow> dir = cwd w"
  by (auto simp: getcwd_def split: if_splits option.splits)

lemma log_history_keeps:
  "os_alloc (log_history line w) = os_alloc w"
  "entered (log_history line w) = entered w"
  "cwd (log_history line w) = cwd w"
  "stdin (log_history line w) = stdin w"
  "stdout (log_history line w) = stdout w"
  by (simp_all add: log_history_def fopen_history_a_def timestamp_def perror_def
      fprintf_stderr_def fprintf_history_def split: sum.splits prod.splits)

lemma lsh_loop_body_after_read:
  assumes "CHR 0x0A \<notin> set l" and "length l + LSH_RL_BUFSIZE \<le> INT_MAX"
  shows "\<exists>n. \<forall>w rest. stdin w = l @ rest \<longrightarrow> (rest = [] \<or> hd rest = CHR 0x0A) \<longrightarrow>
            (\<forall>k. os_alloc w k) \<longrightarrow>
            lsh_loop_body w =
              and_then
                (lsh_split_line l
                   (if (l @ [NUL]) ! 0 \<noteq> NUL
                    then log_history l
                           (w\<lparr>stdout := stdout w @ ''> '', stdin := drop 1 rest,
                              ticks := ticks w + n\<rparr>)
                    else w\<lparr>stdout := stdout w @ ''> '', stdin := drop 1 rest,
                           ticks := ticks w + n\<rparr>))
                lsh_execute"
proof -
  from lsh_read_line_returns [OF assms] obtain n where
    n: "\<And>w rest. stdin w = l @ rest \<Longrightarrow> rest = [] \<or> hd rest = CHR 0x0A \<Longrightarrow>
         \<forall>k. os_alloc w k \<Longrightarrow>
         lsh_read_line w = Returns l (w\<lparr>stdin := drop 1 rest, ticks := ticks w + n\<rparr>)"
    by blast
  have "lsh_loop_body w =
      and_then
        (lsh_split_line l
           (if (l @ [NUL]) ! 0 \<noteq> NUL
            then log_history l
                   (w\<lparr>stdout := stdout w @ ''> '', stdin := drop 1 rest, ticks := ticks w + n\<rparr>)
            else w\<lparr>stdout := stdout w @ ''> '', stdin := drop 1 rest, ticks := ticks w + n\<rparr>))
        lsh_execute"
    if w: "stdin w = l @ rest" "rest = [] \<or> hd rest = CHR 0x0A" "\<forall>k. os_alloc w k"
    for w :: world and rest
  proof -
    have "lsh_read_line (printf ''> '' w)
        = Returns l ((printf ''> '' w)\<lparr>stdin := drop 1 rest,
            ticks := ticks (printf ''> '' w) + n\<rparr>)"
      using w by (intro n) (simp_all add: printf_def)
    then show ?thesis
      by (simp add: lsh_loop_body_def and_then_Returns_eq printf_def)
  qed
  then show ?thesis by blast
qed

lemma lsh_loop_body_eof:
  assumes "stdin w = []" and "\<forall>k. os_alloc w k"
  shows "lsh_loop_body w
    = Returns 1 (w\<lparr>stdout := stdout w @ ''> '', ticks := Suc (Suc (ticks w))\<rparr>)"
proof -
  let ?w0 = "w\<lparr>stdout := stdout w @ ''> ''\<rparr>"
  let ?w1 = "w\<lparr>stdout := stdout w @ ''> '', ticks := Suc (ticks w)\<rparr>"
  let ?w2 = "w\<lparr>stdout := stdout w @ ''> '', ticks := Suc (Suc (ticks w))\<rparr>"
  have p: "printf ''> '' w = ?w0" by (simp add: printf_def)
  from assms(2) have a0: "alloc ?w0 = (True, ?w1)" by (simp add: alloc_def)
  from assms(2) have a1: "alloc ?w1 = (True, ?w2)" by (simp add: alloc_def)
  from assms(1) have "stdin ?w1 = []" by simp
  then have "read_loop [] 0 LSH_RL_BUFSIZE ?w1 = Returns [] ?w1" by (rule read_loop_eof)
  with a0 have r: "lsh_read_line ?w0 = Returns [] ?w1" by (simp add: lsh_read_line_def)
  have "strtok (cstr []) LSH_TOK_DELIM = None" by (simp add: strtok_def cstr_def)
  with a1 have s: "lsh_split_line [] ?w1 = Returns [None] ?w2"
    by (simp add: lsh_split_line_def split_loop_None)
  have e: "lsh_execute [None] ?w2 = Returns 1 ?w2" using lsh_execute_empty [of ?w2] by simp
  have n: "([] @ [NUL]) ! 0 = NUL" by simp
  show ?thesis
    unfolding lsh_loop_body_def p r and_then_Returns_eq n
    by (simp only: s e and_then_Returns_eq simp_thms if_False)
qed

lemma lsh_loop_eof:
  assumes "stdin w = []" and "\<forall>k. os_alloc w k"
  shows "lsh_loop w = None"
proof (rule ccontr)
  assume "lsh_loop w \<noteq> None"
  then obtain y where "lsh_loop w = Some y" by auto
  then have "\<not> (stdin w = [] \<and> (\<forall>k. os_alloc w k))"
  proof (induction rule: lsh_loop.raw_induct [rotated 1, consumes 1])
    case (1 f w y)
    show ?case
    proof
      assume a: "stdin w = [] \<and> (\<forall>k. os_alloc w k)"
      let ?w1 = "w\<lparr>stdout := stdout w @ ''> '', ticks := Suc (Suc (ticks w))\<rparr>"
      from a have "lsh_loop_body w = Returns 1 ?w1" by (simp add: lsh_loop_body_eof)
      with 1(2) have "f ?w1 = Some y" by simp
      from 1(1) [OF this] a show False by simp
    qed
  qed
  with assms show False by simp
qed

lemma lsh_loop_returns_after_exit:
  "lsh_loop w = Some (Returns u w') \<Longrightarrow> entered w' \<noteq> [] \<and> last (entered w') = In_exit"
proof -
  assume "lsh_loop w = Some (Returns u w')"
  have "\<forall>u w'. y = Returns u w' \<longrightarrow> entered w' \<noteq> [] \<and> last (entered w') = In_exit"
    if "lsh_loop w = Some y" for y
    using that
  proof (induction rule: lsh_loop.raw_induct [rotated 1, consumes 1])
    case (1 f w y)
    show ?case
    proof (cases "lsh_loop_body w")
      case (Returns status w1)
      show ?thesis
      proof (cases "status = 0")
        case True
        with Returns 1(2) have y: "y = Returns () w1" by simp
        from Returns True have "lsh_loop_body w = Returns 0 w1" by simp
        from lsh_loop_body_zero [OF this] y show ?thesis by simp
      next
        case False
        with Returns 1(2) have "f w1 = Some y" by simp
        from 1(1) [OF this] show ?thesis .
      qed
    next
      case (Exits c w1)
      with 1(2) show ?thesis by auto
    next
      case (Execs a w1)
      with 1(2) show ?thesis by auto
    next
      case (Blocks w1)
      with 1(2) show ?thesis by auto
    next
      case (Undefined_behaviour w1)
      with 1(2) show ?thesis by auto
    qed
  qed
  with \<open>lsh_loop w = Some (Returns u w')\<close> show ?thesis by blast
qed

lemma NUL_not_delim: "NUL \<notin> set LSH_TOK_DELIM"
  by (simp add: NUL_def LSH_TOK_DELIM_def)

text \<open>The equations that run the program on a given world, for the simplifier.\<close>

lemmas run_simps =
  lsh_loop_body_def and_then_def lsh_read_line_def read_loop.simps getchar_def alloc_def
  printf_def log_history_def fopen_history_a_def getcwd_def timestamp_def perror_def
  fprintf_stderr_def fprintf_history_def lsh_split_line_def split_loop.simps strtok_def
  cstr_def NUL_def NL_def LSH_TOK_DELIM_def LSH_TOK_BUFSIZE_def LSH_RL_BUFSIZE_def INT_MAX_def
  lsh_execute_dispatch arg_def lsh_launch_def fork_def enter_def lsh_exit_def
  allocation_error_def

section \<open>The dispatcher\<close>

text \<open>
  Claim C1. The dispatcher returns \<open>0\<close> (stop) if and only if \<^verbatim>\<open>args[0]\<close> is the string
  \<^verbatim>\<open>exit\<close>, whatever follows it in the vector. For every other vector it returns nothing
  but \<open>1\<close> (continue), and it does return \<open>1\<close> for the empty vector, for \<^verbatim>\<open>cd\<close>,
  \<^verbatim>\<open>help\<close> and \<^verbatim>\<open>history\<close>, and for an external command whenever the launch gives control
  back to the shell: \<^verbatim>\<open>fork\<close> failed, or the child exited or was killed by a signal,
  whatever its status.
\<close>

theorem lsh_execute_stops_iff_exit:
  "((\<exists>w'. lsh_execute args w = Returns 0 w') \<longleftrightarrow> arg args 0 = Some ''exit'') \<and>
   (arg args 0 = Some ''exit'' \<longrightarrow> lsh_execute args w = Returns 0 (enter In_exit w)) \<and>
   (arg args 0 \<noteq> Some ''exit'' \<longrightarrow>
      (\<forall>r w'. lsh_execute args w = Returns r w' \<longrightarrow> r = 1) \<and>
      (arg args 0 = None \<or> arg args 0 = Some ''cd'' \<or> arg args 0 = Some ''help'' \<or>
       arg args 0 = Some ''history'' \<or> launch_comes_back w
         \<longrightarrow> (\<exists>w'. lsh_execute args w = Returns 1 w')))"
proof -
  have stop: "lsh_execute args w = Returns 0 (enter In_exit w)" if "arg args 0 = Some ''exit''"
    using that by (simp add: lsh_execute_dispatch lsh_exit_returns)
  have one: "r = 1" if "arg args 0 \<noteq> Some ''exit''" "lsh_execute args w = Returns r w'" for r w'
  proof (cases "arg args 0")
    case None
    with that show ?thesis by (simp add: lsh_execute_dispatch)
  next
    case (Some a0)
    with that have a0: "a0 \<noteq> ''exit''" by simp
    from that(2) Some a0
    lsh_cd_returns [of args w] lsh_help_returns [of args w] lsh_history_returns [of args w]
    lsh_launch_returns_1 [of args w r w']
    show ?thesis by (auto simp: lsh_execute_dispatch split: if_splits)
  qed
  have ret: "\<exists>w'. lsh_execute args w = Returns 1 w'"
    if "arg args 0 \<noteq> Some ''exit''"
      "arg args 0 = None \<or> arg args 0 = Some ''cd'' \<or> arg args 0 = Some ''help'' \<or>
       arg args 0 = Some ''history'' \<or> launch_comes_back w"
  proof (cases "arg args 0")
    case None
    then show ?thesis by (simp add: lsh_execute_dispatch)
  next
    case (Some a0)
    with that(1) have a0: "a0 \<noteq> ''exit''" by simp
    consider "a0 = ''cd''" | "a0 = ''help''" | "a0 = ''history''"
      | "a0 \<noteq> ''cd''" "a0 \<noteq> ''help''" "a0 \<noteq> ''history''" by blast
    then show ?thesis
    proof cases
      case 1
      with Some lsh_cd_returns [of args w] show ?thesis
        by (auto simp: lsh_execute_dispatch)
    next
      case 2
      with Some lsh_help_returns [of args w] show ?thesis
        by (auto simp: lsh_execute_dispatch)
    next
      case 3
      with Some lsh_history_returns [of args w] show ?thesis
        by (auto simp: lsh_execute_dispatch)
    next
      case 4
      with that(2) Some have "launch_comes_back w" by simp
      from lsh_launch_comes_back [OF this, of args] 4 a0 Some show ?thesis
        by (simp add: lsh_execute_dispatch)
    qed
  qed
  have iff: "(\<exists>w'. lsh_execute args w = Returns 0 w') \<longleftrightarrow> arg args 0 = Some ''exit''"
    using stop one by fastforce
  from iff stop one ret show ?thesis by blast
qed

theorem lsh_execute_stops_iff_exit_witness:
  "lsh_execute [Some ''exit'', Some ''now'', None] example_world
     = Returns 0 (enter In_exit example_world) \<and>
   (\<exists>w'. lsh_execute [Some ''cd'', None] example_world = Returns 1 w') \<and>
   (\<exists>w'. lsh_execute [Some ''ls'', Some ''-l'', None] example_world = Returns 1 w') \<and>
   (\<exists>w'. lsh_execute [None] example_world = Returns 1 w')"
proof -
  have e: "arg [Some ''exit'', Some ''now'', None] 0 = Some ''exit''"
    by (simp add: arg_def cstr_def NUL_def)
  have c: "arg [Some ''cd'', None] 0 = Some ''cd''"
    by (simp add: arg_def cstr_def NUL_def)
  have l: "arg [Some ''ls'', Some ''-l'', None] 0 = Some ''ls''"
    by (simp add: arg_def cstr_def NUL_def)
  have n: "arg [None] 0 = None"
    by (simp add: arg_def)
  have b: "launch_comes_back example_world"
    by (simp add: launch_comes_back_def example_world_def)
  from lsh_execute_stops_iff_exit [of "[Some ''exit'', Some ''now'', None]" example_world] e
  have 1: "lsh_execute [Some ''exit'', Some ''now'', None] example_world
     = Returns 0 (enter In_exit example_world)" by simp
  from lsh_execute_stops_iff_exit [of "[Some ''cd'', None]" example_world] c
  have 2: "\<exists>w'. lsh_execute [Some ''cd'', None] example_world = Returns 1 w'" by simp
  from lsh_execute_stops_iff_exit [of "[Some ''ls'', Some ''-l'', None]" example_world] l b
  have 3: "\<exists>w'. lsh_execute [Some ''ls'', Some ''-l'', None] example_world = Returns 1 w'"
    by simp
  from lsh_execute_stops_iff_exit [of "[None]" example_world] n
  have 4: "\<exists>w'. lsh_execute [None] example_world = Returns 1 w'" by simp
  from 1 2 3 4 show ?thesis by blast
qed

text \<open>
  Claim C2. When \<^verbatim>\<open>args[0]\<close> is, byte for byte, one of the names \<^verbatim>\<open>cd\<close>, \<^verbatim>\<open>help\<close>,
  \<^verbatim>\<open>exit\<close>, \<^verbatim>\<open>history\<close>, the dispatcher does what the handler of that name does on the
  whole vector, and that handler is the one routine it enters. The launcher is entered
  exactly when \<^verbatim>\<open>args[0]\<close> is a string that is none of the four names, and then the
  dispatcher does what the launcher does.
\<close>

theorem builtin_name_runs_its_handler:
  "(arg args 0 = Some ''cd'' \<longrightarrow>
      lsh_execute args w = lsh_cd args w \<and> ran_by args w = [In_cd]) \<and>
   (arg args 0 = Some ''help'' \<longrightarrow>
      lsh_execute args w = lsh_help args w \<and> ran_by args w = [In_help]) \<and>
   (arg args 0 = Some ''exit'' \<longrightarrow>
      lsh_execute args w = lsh_exit args w \<and> ran_by args w = [In_exit]) \<and>
   (arg args 0 = Some ''history'' \<longrightarrow>
      lsh_execute args w = lsh_history args w \<and> ran_by args w = [In_history]) \<and>
   (In_launch \<in> set (ran_by args w) \<longleftrightarrow>
      (\<exists>a0. arg args 0 = Some a0 \<and> a0 \<notin> set builtin_str)) \<and>
   ((\<exists>a0. arg args 0 = Some a0 \<and> a0 \<notin> set builtin_str) \<longrightarrow>
      lsh_execute args w = lsh_launch args w \<and> ran_by args w = [In_launch])"
  by (auto simp: ran_by_dispatch lsh_execute_dispatch builtin_str_def split: option.splits)

theorem builtin_name_runs_its_handler_witness:
  "lsh_execute [Some ''cd'', Some ''/tmp'', None] example_world
     = lsh_cd [Some ''cd'', Some ''/tmp'', None] example_world \<and>
   ran_by [Some ''cd'', Some ''/tmp'', None] example_world = [In_cd] \<and>
   ran_by [Some ''help'', None] example_world = [In_help] \<and>
   ran_by [Some ''exit'', None] example_world = [In_exit] \<and>
   ran_by [Some ''history'', None] example_world = [In_history] \<and>
   In_launch \<notin> set (ran_by [Some ''history'', None] example_world) \<and>
   lsh_execute [Some ''CD'', Some ''/tmp'', None] example_world
     = lsh_launch [Some ''CD'', Some ''/tmp'', None] example_world \<and>
   ran_by [Some ''CD'', Some ''/tmp'', None] example_world = [In_launch]"
proof -
  have a: "arg [Some ''cd'', Some ''/tmp'', None] 0 = Some ''cd''"
    "arg [Some ''help'', None] 0 = Some ''help''"
    "arg [Some ''exit'', None] 0 = Some ''exit''"
    "arg [Some ''history'', None] 0 = Some ''history''"
    "arg [Some ''CD'', Some ''/tmp'', None] 0 = Some ''CD''"
    by (simp_all add: arg_def cstr_def NUL_def)
  have n: "''CD'' \<notin> set builtin_str" "''history'' \<in> set builtin_str"
    by (simp_all add: builtin_str_def)
  from builtin_name_runs_its_handler [of "[Some ''cd'', Some ''/tmp'', None]" example_world] a
  have 1: "lsh_execute [Some ''cd'', Some ''/tmp'', None] example_world
     = lsh_cd [Some ''cd'', Some ''/tmp'', None] example_world \<and>
     ran_by [Some ''cd'', Some ''/tmp'', None] example_world = [In_cd]" by simp
  from builtin_name_runs_its_handler [of "[Some ''help'', None]" example_world] a
  have 2: "ran_by [Some ''help'', None] example_world = [In_help]" by simp
  from builtin_name_runs_its_handler [of "[Some ''exit'', None]" example_world] a
  have 3: "ran_by [Some ''exit'', None] example_world = [In_exit]" by simp
  from builtin_name_runs_its_handler [of "[Some ''history'', None]" example_world] a n
  have 4: "ran_by [Some ''history'', None] example_world = [In_history] \<and>
     In_launch \<notin> set (ran_by [Some ''history'', None] example_world)" by simp
  from builtin_name_runs_its_handler [of "[Some ''CD'', Some ''/tmp'', None]" example_world] a n
  have 5: "lsh_execute [Some ''CD'', Some ''/tmp'', None] example_world
     = lsh_launch [Some ''CD'', Some ''/tmp'', None] example_world \<and>
     ran_by [Some ''CD'', Some ''/tmp'', None] example_world = [In_launch]" by simp
  from 1 2 3 4 5 show ?thesis by blast
qed

section \<open>The launcher\<close>

text \<open>
  Claim C4. In the parent the wait loop ends exactly at the first status report that is
  an exit or a termination by a signal; a report of a stopped child does not end it, and
  with no such report the call stays in \<^verbatim>\<open>waitpid\<close>. When \<^verbatim>\<open>fork\<close> fails the launcher
  writes \<^verbatim>\<open>lsh: \<close> and the error to standard error and returns \<open>1\<close>. Whenever the
  launcher returns, it returns \<open>1\<close>.
\<close>

theorem lsh_launch_waits_until_terminated:
  "(os_fork w (ticks w) = Fork_parent sts \<longrightarrow>
      wait_loop sts =
        (case dropWhile (\<lambda>s. \<not> WIFEXITED s \<and> \<not> WIFSIGNALED s) sts of
           [] \<Rightarrow> None
         | s # later \<Rightarrow> Some (s, later)) \<and>
      wait_loop (WStopped n # sts) = wait_loop sts \<and>
      (list_ex (\<lambda>s. WIFEXITED s \<or> WIFSIGNALED s) sts \<longrightarrow>
         lsh_launch args w = Returns 1 (after_fork w)) \<and>
      (\<not> list_ex (\<lambda>s. WIFEXITED s \<or> WIFSIGNALED s) sts \<longrightarrow>
         lsh_launch args w = Blocks (after_fork w))) \<and>
   (os_fork w (ticks w) = Fork_failed e \<longrightarrow>
      lsh_launch args w = Returns 1 (perror ''lsh'' e (after_fork w)) \<and>
      stderr (world_of (lsh_launch args w)) = stderr w @ ''lsh: '' @ e @ NL) \<and>
   (\<forall>r w'. lsh_launch args w = Returns r w' \<longrightarrow> r = 1)"
proof -
  have "wait_loop (WStopped n # sts) = wait_loop sts" by simp
  moreover have "stderr (perror ''lsh'' e (after_fork w)) = stderr w @ ''lsh: '' @ e @ NL"
    by (simp add: perror_def fprintf_stderr_def after_fork_def enter_def)
  ultimately show ?thesis
    using wait_loop_dropWhile [of sts] lsh_launch_parent [of w sts args]
      lsh_launch_fork_failed [of w e args] lsh_launch_returns_1 [of args w]
    by auto
qed

theorem lsh_launch_waits_until_terminated_witness:
  "wait_loop [WStopped 19, WExited 0] = Some (WExited 0, []) \<and>
   wait_loop [WStopped 19, WStopped 19] = None \<and>
   lsh_launch [Some ''ls'', None] example_world = Returns 1 (after_fork example_world) \<and>
   lsh_launch [Some ''ls'', None] (example_world\<lparr>os_fork := (\<lambda>n. Fork_parent [WStopped 19])\<rparr>)
     = Blocks (after_fork (example_world\<lparr>os_fork := (\<lambda>n. Fork_parent [WStopped 19])\<rparr>)) \<and>
   lsh_launch [Some ''ls'', None] fork_fails_world
     = Returns 1 (perror ''lsh'' ''Resource temporarily unavailable'' (after_fork fork_fails_world)) \<and>
   stderr (world_of (lsh_launch [Some ''ls'', None] fork_fails_world))
     = ''lsh: Resource temporarily unavailable'' @ NL"
proof -
  have f1: "os_fork example_world (ticks example_world) = Fork_parent [WStopped 19, WExited 0]"
    by (simp add: example_world_def)
  let ?w = "example_world\<lparr>os_fork := (\<lambda>n. Fork_parent [WStopped 19])\<rparr>"
  have f2: "os_fork ?w (ticks ?w) = Fork_parent [WStopped 19]"
    by simp
  have f3: "os_fork fork_fails_world (ticks fork_fails_world)
      = Fork_failed ''Resource temporarily unavailable''"
    by (simp add: fork_fails_world_def)
  have s: "stderr fork_fails_world = []"
    by (simp add: fork_fails_world_def example_world_def)
  from lsh_launch_waits_until_terminated
    [of example_world "[WStopped 19, WExited 0]" 19 "[Some ''ls'', None]" "[]"] f1
  have 1: "wait_loop [WStopped 19, WExited 0] = Some (WExited 0, []) \<and>
    lsh_launch [Some ''ls'', None] example_world = Returns 1 (after_fork example_world)"
    by simp
  from lsh_launch_waits_until_terminated [of ?w "[WStopped 19]" 19 "[Some ''ls'', None]" "[]"] f2
  have 2: "wait_loop [WStopped 19, WStopped 19] = None \<and>
    lsh_launch [Some ''ls'', None] ?w = Blocks (after_fork ?w)"
    by simp
  from lsh_launch_waits_until_terminated
    [of fork_fails_world "[]" 0 "[Some ''ls'', None]" "''Resource temporarily unavailable''"] f3 s
  have 3: "lsh_launch [Some ''ls'', None] fork_fails_world
     = Returns 1 (perror ''lsh'' ''Resource temporarily unavailable'' (after_fork fork_fails_world)) \<and>
   stderr (world_of (lsh_launch [Some ''ls'', None] fork_fails_world))
     = ''lsh: Resource temporarily unavailable'' @ NL"
    by (simp add: perror_def fprintf_stderr_def after_fork_def enter_def)
  from 1 2 3 show ?thesis by blast
qed

section \<open>The builtins\<close>

text \<open>
  Claim C5, as the spec states it, fails: the modifier \<^verbatim>\<open>-C\<close> is not \<^verbatim>\<open>-c\<close>, yet
  \<^verbatim>\<open>history -C\<close> removes the history file and reports success, with nothing on
  standard error (the source compares with \<^verbatim>\<open>strcasecmp\<close>).
\<close>

theorem history_dash_upper_c_counterexample:
  "arg [Some ''history'', Some ''-C'', None] 1 = Some ''-C'' \<and>
   ''-C'' \<noteq> ''-c'' \<and>
   files history_world (cwd history_world) \<noteq> None \<and>
   files (world_of (lsh_history [Some ''history'', Some ''-C'', None] history_world))
     (cwd history_world) = None \<and>
   stdout (world_of (lsh_history [Some ''history'', Some ''-C'', None] history_world))
     = ''History cleared successfully.'' @ NL \<and>
   stderr (world_of (lsh_history [Some ''history'', Some ''-C'', None] history_world)) = []"
proof -
  have a: "arg [Some ''history'', Some ''-C'', None] 1 = Some ''-C''"
    by (simp add: arg_def cstr_def NUL_def)
  have c: "strcasecmp ''-C'' ''-c'' = 0"
    by (simp add: strcasecmp_dash_c cstr_def NUL_def)
  show ?thesis
    unfolding lsh_history_def a Let_def
    by (simp add: c remove_history_def history_world_def example_world_def enter_def
        printf_def)
qed

text \<open>
  Claim C5, amended. With a modifier that is \<^verbatim>\<open>-c\<close> or \<^verbatim>\<open>-C\<close>, \<^verbatim>\<open>history\<close> tries to
  remove the history file: on success the file is gone and the success line is printed,
  on failure the error of the removal is reported. With any other modifier it writes the
  invalid-option and usage lines to standard error and changes nothing else. It returns
  \<open>1\<close> in each case.
\<close>

theorem lsh_history_modifier:
  "arg args 1 = Some a \<Longrightarrow>
     (a = ''-c'' \<or> a = ''-C'' \<longrightarrow>
        (case remove_history (enter In_history w) of
           Inl e \<Rightarrow>
             lsh_history args w
               = Returns 1 (perror ''Error clearing history'' e (enter In_history w))
         | Inr w1 \<Rightarrow>
             files w1 (cwd w) = None \<and>
             lsh_history args w
               = Returns 1 (printf (''History cleared successfully.'' @ NL) w1))) \<and>
     (a \<noteq> ''-c'' \<and> a \<noteq> ''-C'' \<longrightarrow>
        lsh_history args w
          = Returns 1
              (fprintf_stderr (''Usage: history [-c]'' @ NL)
                 (fprintf_stderr (''Invalid option: '' @ a @ NL) (enter In_history w))))"
proof -
  assume a: "arg args 1 = Some a"
  then have "cstr a = a" by (rule arg_is_cstr)
  then have c: "strcasecmp a ''-c'' = 0 \<longleftrightarrow> a = ''-c'' \<or> a = ''-C''"
    by (simp add: strcasecmp_dash_c)
  have r: "files w1 (cwd w) = None" if "remove_history (enter In_history w) = Inr w1" for w1
    using remove_history_files [OF that] by (simp add: enter_def)
  from a have a': "arg args (Suc 0) = Some a" by simp
  show ?thesis
    using c r by (auto simp: lsh_history_def a' Let_def split: sum.splits)
qed

theorem lsh_history_modifier_witness:
  "lsh_history [Some ''history'', Some ''-c'', None] history_world
     = Returns 1 (printf (''History cleared successfully.'' @ NL)
         ((enter In_history history_world)\<lparr>files := (\<lambda>d. None)\<rparr>)) \<and>
   lsh_history [Some ''history'', Some ''-c'', None] example_world
     = Returns 1 (perror ''Error clearing history'' ''No such file or directory''
         (enter In_history example_world)) \<and>
   lsh_history [Some ''history'', Some ''-x'', None] history_world
     = Returns 1
         (fprintf_stderr (''Usage: history [-c]'' @ NL)
            (fprintf_stderr (''Invalid option: -x'' @ NL) (enter In_history history_world)))"
proof -
  have a: "arg [Some ''history'', Some ''-c'', None] 1 = Some ''-c''"
    "arg [Some ''history'', Some ''-x'', None] 1 = Some ''-x''"
    by (simp_all add: arg_def cstr_def NUL_def)
  have r1: "remove_history (enter In_history history_world)
      = Inr ((enter In_history history_world)\<lparr>files := (\<lambda>d. None)\<rparr>)"
    by (auto simp: remove_history_def history_world_def example_world_def enter_def)
  have r2: "remove_history (enter In_history example_world) = Inl ''No such file or directory''"
    by (simp add: remove_history_def example_world_def enter_def)
  from lsh_history_modifier [OF a(1), of history_world] r1
  have 1: "lsh_history [Some ''history'', Some ''-c'', None] history_world
     = Returns 1 (printf (''History cleared successfully.'' @ NL)
         ((enter In_history history_world)\<lparr>files := (\<lambda>d. None)\<rparr>))"
    by simp
  from lsh_history_modifier [OF a(1), of example_world] r2
  have 2: "lsh_history [Some ''history'', Some ''-c'', None] example_world
     = Returns 1 (perror ''Error clearing history'' ''No such file or directory''
         (enter In_history example_world))"
    by simp
  from lsh_history_modifier [OF a(2), of history_world]
  have 3: "lsh_history [Some ''history'', Some ''-x'', None] history_world
     = Returns 1
         (fprintf_stderr (''Usage: history [-c]'' @ NL)
            (fprintf_stderr (''Invalid option: -x'' @ NL) (enter In_history history_world)))"
    by simp
  from 1 2 3 show ?thesis by blast
qed

text \<open>
  Claim C6. \<^verbatim>\<open>cd\<close> without a second cell writes the usage error, leaves the working
  directory as it was and returns \<open>1\<close>. \<^verbatim>\<open>cd\<close> with a path that \<^verbatim>\<open>chdir\<close> accepts
  makes the directory found the working directory and returns \<open>1\<close>. From any world, a
  command other than \<^verbatim>\<open>cd\<close> and a launch leave the working directory as it is, and a
  child made by \<^verbatim>\<open>fork\<close> starts its program in the working directory of the shell: so
  every child launched later runs in the new directory.
\<close>

theorem lsh_cd_changes_directory:
  "(arg args 1 = None \<longrightarrow>
      lsh_cd args w
        = Returns 1
            (fprintf_stderr
               (''lsh: expected argument to '' @ [CHR 0x22] @ ''cd'' @ [CHR 0x22] @ NL)
               (enter In_cd w)) \<and>
      cwd (world_of (lsh_cd args w)) = cwd w) \<and>
   (arg args 1 = Some path \<and> os_chdir w (cwd w) path = Inr dir \<longrightarrow>
      lsh_cd args w = Returns 1 ((enter In_cd w)\<lparr>cwd := dir\<rparr>) \<and>
      cwd (world_of (lsh_cd args w)) = dir) \<and>
   (\<forall>r w1. lsh_cd args w = Returns r w1 \<longrightarrow> r = 1) \<and>
   (arg args' 0 \<noteq> Some ''cd'' \<longrightarrow> cwd (world_of (lsh_execute args' w)) = cwd w) \<and>
   cwd (world_of (lsh_launch args' w)) = cwd w \<and>
   (os_fork w (ticks w) = Fork_child None \<longrightarrow>
      lsh_launch args' w = Execs args' (after_fork w) \<and> cwd (after_fork w) = cwd w)"
proof -
  have 1: "lsh_cd args w
        = Returns 1
            (fprintf_stderr
               (''lsh: expected argument to '' @ [CHR 0x22] @ ''cd'' @ [CHR 0x22] @ NL)
               (enter In_cd w)) \<and>
      cwd (world_of (lsh_cd args w)) = cwd w" if "arg args 1 = None"
  proof -
    from that have "arg args (Suc 0) = None" by simp
    then show ?thesis by (simp add: lsh_cd_def Let_def fprintf_stderr_def enter_def)
  qed
  have 2: "lsh_cd args w = Returns 1 ((enter In_cd w)\<lparr>cwd := dir\<rparr>) \<and>
      cwd (world_of (lsh_cd args w)) = dir"
    if "arg args 1 = Some path" "os_chdir w (cwd w) path = Inr dir"
  proof -
    from that have "arg args (Suc 0) = Some path" by simp
    with that(2) show ?thesis by (simp add: lsh_cd_def Let_def chdir_def enter_def)
  qed
  have 3: "r = 1" if "lsh_cd args w = Returns r w1" for r w1
    using that lsh_cd_returns [of args w] by auto
  have 4: "cwd (after_fork w) = cwd w"
    by (simp add: after_fork_def enter_def)
  from 1 2 3 4 cwd_lsh_execute [of args' w] cwd_lsh_launch [of args' w]
    lsh_launch_child [of w args']
  show ?thesis by blast
qed

theorem lsh_cd_changes_directory_witness:
  "cwd (world_of (lsh_cd [Some ''cd'', None] example_world)) = ''/home'' \<and>
   stderr (world_of (lsh_cd [Some ''cd'', None] example_world))
     = ''lsh: expected argument to '' @ [CHR 0x22] @ ''cd'' @ [CHR 0x22] @ NL \<and>
   lsh_cd [Some ''cd'', Some ''/tmp'', None] example_world
     = Returns 1 ((enter In_cd example_world)\<lparr>cwd := ''/tmp''\<rparr>) \<and>
   lsh_launch [Some ''pwd'', None]
       ((enter In_cd example_world)\<lparr>cwd := ''/tmp'', os_fork := (\<lambda>n. Fork_child None)\<rparr>)
     = Execs [Some ''pwd'', None]
         (after_fork
            ((enter In_cd example_world)\<lparr>cwd := ''/tmp'', os_fork := (\<lambda>n. Fork_child None)\<rparr>)) \<and>
   cwd (after_fork
          ((enter In_cd example_world)\<lparr>cwd := ''/tmp'', os_fork := (\<lambda>n. Fork_child None)\<rparr>))
     = ''/tmp'' \<and>
   cwd (world_of (lsh_execute [Some ''ls'', None]
          ((enter In_cd example_world)\<lparr>cwd := ''/tmp''\<rparr>))) = ''/tmp''"
proof -
  let ?w1 = "(enter In_cd example_world)\<lparr>cwd := ''/tmp''\<rparr>"
  let ?w2 = "(enter In_cd example_world)\<lparr>cwd := ''/tmp'', os_fork := (\<lambda>n. Fork_child None)\<rparr>"
  have a: "arg [Some ''cd'', None] 1 = None"
    "arg [Some ''cd'', Some ''/tmp'', None] 1 = Some ''/tmp''"
    "arg [Some ''ls'', None] 0 \<noteq> Some ''cd''"
    by (simp_all add: arg_def cstr_def NUL_def)
  have c: "os_chdir example_world (cwd example_world) ''/tmp'' = Inr ''/tmp''"
    by (simp add: example_world_def)
  have f: "os_fork ?w2 (ticks ?w2) = Fork_child None"
    by simp
  have w: "cwd example_world = ''/home''" "stderr example_world = []"
    "cwd ?w1 = ''/tmp''" "cwd ?w2 = ''/tmp''"
    by (simp_all add: example_world_def)
  from lsh_cd_changes_directory [of "[Some ''cd'', None]" example_world "[]" "[]" "[]"] a(1) w
  have 1: "cwd (world_of (lsh_cd [Some ''cd'', None] example_world)) = ''/home'' \<and>
     stderr (world_of (lsh_cd [Some ''cd'', None] example_world))
       = ''lsh: expected argument to '' @ [CHR 0x22] @ ''cd'' @ [CHR 0x22] @ NL"
    by (simp add: fprintf_stderr_def enter_def)
  from lsh_cd_changes_directory
    [of "[Some ''cd'', Some ''/tmp'', None]" example_world "''/tmp''" "''/tmp''" "[]"] a(2) c
  have 2: "lsh_cd [Some ''cd'', Some ''/tmp'', None] example_world = Returns 1 ?w1"
    by simp
  from lsh_cd_changes_directory [of "[]" ?w2 "[]" "[]" "[Some ''pwd'', None]"] f w(4)
  have 3: "lsh_launch [Some ''pwd'', None] ?w2 = Execs [Some ''pwd'', None] (after_fork ?w2) \<and>
     cwd (after_fork ?w2) = ''/tmp''"
    by simp
  from lsh_cd_changes_directory [of "[]" ?w1 "[]" "[]" "[Some ''ls'', None]"] a(3) w(3)
  have 4: "cwd (world_of (lsh_execute [Some ''ls'', None] ?w1)) = ''/tmp''"
    by simp
  from 1 2 3 4 show ?thesis by blast
qed

text \<open>
  Claim C10. \<^verbatim>\<open>cd\<close> and \<^verbatim>\<open>history\<close> read nothing of the vector but its second cell:
  on two vectors that agree on cells \<open>0\<close> and \<open>1\<close> each of them ends the same way, with
  the same return value and the same world.
\<close>

theorem cd_and_history_read_only_two_cells:
  "arg a 0 = arg b 0 \<Longrightarrow> arg a 1 = arg b 1 \<Longrightarrow>
     lsh_cd a w = lsh_cd b w \<and> lsh_history a w = lsh_history b w"
  by (simp add: lsh_cd_def lsh_history_def)

theorem cd_and_history_read_only_two_cells_witness:
  "lsh_cd [Some ''cd'', Some ''a'', Some ''b'', None] example_world
     = lsh_cd [Some ''cd'', Some ''a'', None] example_world \<and>
   lsh_history [Some ''history'', Some ''-c'', Some ''extra'', None] example_world
     = lsh_history [Some ''history'', Some ''-c'', None] example_world"
proof -
  have 1: "arg [Some ''cd'', Some ''a'', Some ''b'', None] 0 = arg [Some ''cd'', Some ''a'', None] 0"
    "arg [Some ''cd'', Some ''a'', Some ''b'', None] 1 = arg [Some ''cd'', Some ''a'', None] 1"
    by (simp_all add: arg_def)
  have 2: "arg [Some ''history'', Some ''-c'', Some ''extra'', None] 0
      = arg [Some ''history'', Some ''-c'', None] 0"
    "arg [Some ''history'', Some ''-c'', Some ''extra'', None] 1
      = arg [Some ''history'', Some ''-c'', None] 1"
    by (simp_all add: arg_def)
  from cd_and_history_read_only_two_cells [OF 1] cd_and_history_read_only_two_cells [OF 2]
  show ?thesis by blast
qed

section \<open>The tokenizer\<close>

text \<open>
  Claim C3. Whenever the tokenizer returns, its result is the maximal substrings of the
  line that hold none of the delimiters space, tab, carriage return, newline and bell,
  in their order, each as a cell, with one NULL cell behind them; no token is empty and
  none holds a delimiter. For a line of delimiters only (the empty line too) the result
  is the NULL cell alone, and on it the dispatcher returns \<open>1\<close>, enters no routine and
  leaves the world as it is. The tokenizer does return when every allocation is granted
  and the line is short enough for its \<^verbatim>\<open>int\<close> counters.
\<close>

theorem lsh_split_line_maximal_tokens:
  "(lsh_split_line line w = Returns args w' \<longrightarrow>
      args = map Some (maximal_tokens (cstr line)) @ [None] \<and>
      (\<forall>t\<in>set (maximal_tokens (cstr line)). t \<noteq> [] \<and> (\<forall>c\<in>set t. c \<notin> set LSH_TOK_DELIM)) \<and>
      ((\<forall>c\<in>set (cstr line). c \<in> set LSH_TOK_DELIM) \<longrightarrow>
         args = [None] \<and> lsh_execute args w' = Returns 1 w' \<and> ran_by args w' = [])) \<and>
   ((\<forall>k. os_alloc w k) \<and> length line + LSH_TOK_BUFSIZE \<le> INT_MAX \<longrightarrow>
      (\<exists>n. lsh_split_line line w
            = Returns (map Some (maximal_tokens (cstr line)) @ [None])
                (w\<lparr>ticks := ticks w + n\<rparr>)))"
proof -
  have 1: "args = map Some (maximal_tokens (cstr line)) @ [None]"
    if "lsh_split_line line w = Returns args w'"
    using that by (rule lsh_split_line_result)
  have 2: "\<forall>t\<in>set (maximal_tokens (cstr line)). t \<noteq> [] \<and> (\<forall>c\<in>set t. c \<notin> set LSH_TOK_DELIM)"
    using maximal_tokens_shape [of _ "cstr line"] by blast
  have 3: "args = [None] \<and> lsh_execute args w' = Returns 1 w' \<and> ran_by args w' = []"
    if "lsh_split_line line w = Returns args w'" "\<forall>c\<in>set (cstr line). c \<in> set LSH_TOK_DELIM"
  proof -
    from that(2) have "maximal_tokens (cstr line) = []" by (rule maximal_tokens_only_delims)
    with 1 [OF that(1)] have "args = [None]" by simp
    with lsh_execute_empty [of w'] show ?thesis by simp
  qed
  have 4: "\<exists>n. lsh_split_line line w
            = Returns (map Some (maximal_tokens (cstr line)) @ [None])
                (w\<lparr>ticks := ticks w + n\<rparr>)"
    if "\<forall>k. os_alloc w k" "length line + LSH_TOK_BUFSIZE \<le> INT_MAX"
    using that by (rule lsh_split_line_returns)
  from 1 2 3 4 show ?thesis by blast
qed

theorem lsh_split_line_maximal_tokens_witness:
  "(\<exists>n. lsh_split_line (''  ls'' @ [CHR 0x09, CHR 0x20] @ ''-l /tmp '') example_world
        = Returns [Some ''ls'', Some ''-l'', Some ''/tmp'', None] (example_world\<lparr>ticks := n\<rparr>)) \<and>
   (\<exists>n. lsh_split_line [CHR 0x20, CHR 0x09, CHR 0x0D, CHR 0x07] example_world
        = Returns [None] (example_world\<lparr>ticks := n\<rparr>) \<and>
      lsh_execute [None] (example_world\<lparr>ticks := n\<rparr>)
        = Returns 1 (example_world\<lparr>ticks := n\<rparr>) \<and>
      ran_by [None] (example_world\<lparr>ticks := n\<rparr>) = []) \<and>
   (\<exists>n. lsh_split_line [] example_world = Returns [None] (example_world\<lparr>ticks := n\<rparr>))"
proof -
  let ?l1 = "''  ls'' @ [CHR 0x09, CHR 0x20] @ ''-l /tmp ''"
  let ?l2 = "[CHR 0x20, CHR 0x09, CHR 0x0D, CHR 0x07]"
  have al: "\<forall>k. os_alloc example_world k" by (simp add: example_world_def)
  have t0: "ticks example_world = 0" by (simp add: example_world_def)
  have len: "length ?l1 + LSH_TOK_BUFSIZE \<le> INT_MAX" "length ?l2 + LSH_TOK_BUFSIZE \<le> INT_MAX"
    "length ([] :: string) + LSH_TOK_BUFSIZE \<le> INT_MAX"
    by (simp_all add: LSH_TOK_BUFSIZE_def INT_MAX_def)
  have d: "\<forall>c\<in>set (cstr ?l2). c \<in> set LSH_TOK_DELIM"
    by (simp add: cstr_def NUL_def LSH_TOK_DELIM_def)
  have m1: "maximal_tokens (cstr ?l1) = [''ls'', ''-l'', ''/tmp'']"
    by (simp add: maximal_tokens_scan cstr_def NUL_def is_delim_def LSH_TOK_DELIM_def)
  have m2: "maximal_tokens (cstr ?l2) = []"
    by (simp add: maximal_tokens_scan cstr_def NUL_def is_delim_def LSH_TOK_DELIM_def)
  have m3: "maximal_tokens (cstr []) = []"
    by (simp add: maximal_tokens_scan cstr_def)
  from lsh_split_line_maximal_tokens [of ?l1 example_world "[]" example_world] al len(1)
  have 1: "\<exists>n. lsh_split_line ?l1 example_world
        = Returns [Some ''ls'', Some ''-l'', Some ''/tmp'', None] (example_world\<lparr>ticks := n\<rparr>)"
    unfolding m1 t0 by simp
  from lsh_split_line_maximal_tokens [of ?l2 example_world "[]" example_world] al len(2)
  obtain n where n: "lsh_split_line ?l2 example_world
      = Returns [None] (example_world\<lparr>ticks := n\<rparr>)"
    unfolding m2 t0 by auto
  from lsh_split_line_maximal_tokens
    [of ?l2 example_world "[None]" "example_world\<lparr>ticks := n\<rparr>"] n d
  have "lsh_execute [None] (example_world\<lparr>ticks := n\<rparr>)
        = Returns 1 (example_world\<lparr>ticks := n\<rparr>) \<and>
      ran_by [None] (example_world\<lparr>ticks := n\<rparr>) = []"
    by blast
  with n have 2: "\<exists>n. lsh_split_line ?l2 example_world
        = Returns [None] (example_world\<lparr>ticks := n\<rparr>) \<and>
      lsh_execute [None] (example_world\<lparr>ticks := n\<rparr>)
        = Returns 1 (example_world\<lparr>ticks := n\<rparr>) \<and>
      ran_by [None] (example_world\<lparr>ticks := n\<rparr>) = []"
    by blast
  from lsh_split_line_maximal_tokens [of "[]" example_world "[]" example_world] al len(3)
  have 3: "\<exists>n. lsh_split_line [] example_world = Returns [None] (example_world\<lparr>ticks := n\<rparr>)"
    unfolding m3 t0 by simp
  from 1 2 3 show ?thesis by blast
qed

section \<open>The loop\<close>

text \<open>
  Claim C7, as the spec states it, fails: when \<^verbatim>\<open>getcwd\<close> fails while the line \<^verbatim>\<open>ls\<close>
  is logged, the round writes \<^verbatim>\<open>getcwd error: \<close> and the reason to standard error (the
  source calls \<^verbatim>\<open>perror\<close>), so a diagnostic is emitted.
\<close>

theorem getcwd_failure_is_reported_counterexample:
  "stdin getcwd_fails_world = ''ls'' @ NL \<and>
   getcwd 1024 getcwd_fails_world = Inl ''No such file or directory'' \<and>
   stderr getcwd_fails_world = [] \<and>
   stderr (world_of (lsh_loop_body getcwd_fails_world))
     = ''getcwd error: No such file or directory'' @ NL"
  by (simp add: getcwd_fails_world_def example_world_def run_simps)

text \<open>
  Claim C7, amended. For a non-empty line read from the input: the round goes on with
  the tokenizer and the dispatcher on the world the logging step leaves. If the history
  file cannot be opened, the logging step leaves the world as it was: nothing is logged
  and nothing is reported. If it can be opened and \<^verbatim>\<open>getcwd\<close> fails, the step writes
  \<^verbatim>\<open>getcwd error: \<close> and the reason to standard error and appends the record with
  \<^verbatim>\<open>unknown\<close> as its directory.
\<close>

theorem history_logging_failures:
  assumes "CHR 0x0A \<notin> set l" and "length l + LSH_RL_BUFSIZE \<le> INT_MAX"
    and "(l @ [NUL]) ! 0 \<noteq> NUL"
  shows "\<exists>n. \<forall>w rest. stdin w = l @ rest \<longrightarrow> (rest = [] \<or> hd rest = CHR 0x0A) \<longrightarrow>
            (\<forall>k. os_alloc w k) \<longrightarrow>
    (let w1 = w\<lparr>stdout := stdout w @ ''> '', stdin := drop 1 rest, ticks := ticks w + n\<rparr> in
       lsh_loop_body w = and_then (lsh_split_line l (log_history l w1)) lsh_execute \<and>
       (os_write_denied w (cwd w) \<noteq> None \<longrightarrow> log_history l w1 = w1) \<and>
       (os_write_denied w (cwd w) = None \<longrightarrow>
          (\<forall>e. getcwd 1024 w = Inl e \<longrightarrow>
             stderr (log_history l w1) = stderr w @ ''getcwd error: '' @ e @ NL \<and>
             files (log_history l w1) (cwd w)
               = Some ((case files w (cwd w) of None \<Rightarrow> [] | Some content \<Rightarrow> content)
                       @ ''['' @ os_clock w (ticks w + n) @ ''] [unknown] '' @ cstr l @ NL))))"
proof -
  from lsh_loop_body_after_read [OF assms(1,2)] obtain n where
    n0: "\<forall>w rest. stdin w = l @ rest \<longrightarrow> (rest = [] \<or> hd rest = CHR 0x0A) \<longrightarrow>
            (\<forall>k. os_alloc w k) \<longrightarrow>
            lsh_loop_body w =
              and_then
                (lsh_split_line l
                   (if (l @ [NUL]) ! 0 \<noteq> NUL
                    then log_history l
                           (w\<lparr>stdout := stdout w @ ''> '', stdin := drop 1 rest,
                              ticks := ticks w + n\<rparr>)
                    else w\<lparr>stdout := stdout w @ ''> '', stdin := drop 1 rest,
                           ticks := ticks w + n\<rparr>))
                lsh_execute"
    by blast
  have n: "lsh_loop_body w =
           and_then
             (lsh_split_line l
                (log_history l
                   (w\<lparr>stdout := stdout w @ ''> '', stdin := drop 1 rest,
                      ticks := ticks w + n\<rparr>)))
             lsh_execute"
    if "stdin w = l @ rest" "rest = [] \<or> hd rest = CHR 0x0A" "\<forall>k. os_alloc w k"
    for w :: world and rest
  proof -
    from n0 that have "lsh_loop_body w =
              and_then
                (lsh_split_line l
                   (if (l @ [NUL]) ! 0 \<noteq> NUL
                    then log_history l
                           (w\<lparr>stdout := stdout w @ ''> '', stdin := drop 1 rest,
                              ticks := ticks w + n\<rparr>)
                    else w\<lparr>stdout := stdout w @ ''> '', stdin := drop 1 rest,
                           ticks := ticks w + n\<rparr>))
                lsh_execute"
      by blast
    with assms(3) show ?thesis by (simp only: if_True simp_thms)
  qed
  have "let w1 = w\<lparr>stdout := stdout w @ ''> '', stdin := drop 1 rest, ticks := ticks w + n\<rparr> in
       lsh_loop_body w = and_then (lsh_split_line l (log_history l w1)) lsh_execute \<and>
       (os_write_denied w (cwd w) \<noteq> None \<longrightarrow> log_history l w1 = w1) \<and>
       (os_write_denied w (cwd w) = None \<longrightarrow>
          (\<forall>e. getcwd 1024 w = Inl e \<longrightarrow>
             stderr (log_history l w1) = stderr w @ ''getcwd error: '' @ e @ NL \<and>
             files (log_history l w1) (cwd w)
               = Some ((case files w (cwd w) of None \<Rightarrow> [] | Some content \<Rightarrow> content)
                       @ ''['' @ os_clock w (ticks w + n) @ ''] [unknown] '' @ cstr l @ NL)))"
    if w: "stdin w = l @ rest" "rest = [] \<or> hd rest = CHR 0x0A" "\<forall>k. os_alloc w k"
    for w :: world and rest
  proof -
    let ?w1 = "w\<lparr>stdout := stdout w @ ''> '', stdin := drop 1 rest, ticks := ticks w + n\<rparr>"
    have 1: "lsh_loop_body w = and_then (lsh_split_line l (log_history l ?w1)) lsh_execute"
      using w by (rule n)
    have 2: "log_history l ?w1 = ?w1" if "os_write_denied w (cwd w) \<noteq> None"
      using that by (intro log_history_not_opened) simp
    have g: "getcwd 1024 ?w1 = getcwd 1024 w" by (simp add: getcwd_def split: option.splits)
    have 3: "stderr (log_history l ?w1) = stderr w @ ''getcwd error: '' @ e @ NL \<and>
             files (log_history l ?w1) (cwd w)
               = Some ((case files w (cwd w) of None \<Rightarrow> [] | Some content \<Rightarrow> content)
                       @ ''['' @ os_clock w (ticks w + n) @ ''] [unknown] '' @ cstr l @ NL)"
      if "os_write_denied w (cwd w) = None" "getcwd 1024 w = Inl e" for e
    proof -
      from that(1) have "os_write_denied ?w1 (cwd ?w1) = None" by simp
      from log_history_opened [OF this, of l] that(2) g show ?thesis
        by (simp add: fprintf_history_def perror_def fprintf_stderr_def)
    qed
    from 1 2 3 show ?thesis unfolding Let_def by blast
  qed
  then show ?thesis by blast
qed

theorem history_logging_failures_witness:
  "\<exists>n. stderr (log_history ''ls'' (getcwd_fails_world\<lparr>stdout := ''> '', stdin := [], ticks := n\<rparr>))
          = ''getcwd error: No such file or directory'' @ NL \<and>
        files (log_history ''ls'' (getcwd_fails_world\<lparr>stdout := ''> '', stdin := [], ticks := n\<rparr>))
            ''/home''
          = Some (''[2024-01-01 00:00:00] [unknown] ls'' @ NL) \<and>
        log_history ''ls'' (read_only_world\<lparr>stdout := ''> '', stdin := [], ticks := n\<rparr>)
          = read_only_world\<lparr>stdout := ''> '', stdin := [], ticks := n\<rparr> \<and>
        lsh_loop_body read_only_world
          = and_then
              (lsh_split_line ''ls''
                 (read_only_world\<lparr>stdout := ''> '', stdin := [], ticks := n\<rparr>))
              lsh_execute"
proof -
  have a: "CHR 0x0A \<notin> set ''ls''" "length ''ls'' + LSH_RL_BUFSIZE \<le> INT_MAX"
    "(''ls'' @ [NUL]) ! 0 \<noteq> NUL"
    by (simp_all add: LSH_RL_BUFSIZE_def INT_MAX_def NUL_def)
  from history_logging_failures [OF a] obtain n where n:
    "\<And>w rest. stdin w = ''ls'' @ rest \<Longrightarrow> rest = [] \<or> hd rest = CHR 0x0A \<Longrightarrow>
       \<forall>k. os_alloc w k \<Longrightarrow>
    (let w1 = w\<lparr>stdout := stdout w @ ''> '', stdin := drop 1 rest, ticks := ticks w + n\<rparr> in
       lsh_loop_body w = and_then (lsh_split_line ''ls'' (log_history ''ls'' w1)) lsh_execute \<and>
       (os_write_denied w (cwd w) \<noteq> None \<longrightarrow> log_history ''ls'' w1 = w1) \<and>
       (os_write_denied w (cwd w) = None \<longrightarrow>
          (\<forall>e. getcwd 1024 w = Inl e \<longrightarrow>
             stderr (log_history ''ls'' w1) = stderr w @ ''getcwd error: '' @ e @ NL \<and>
             files (log_history ''ls'' w1) (cwd w)
               = Some ((case files w (cwd w) of None \<Rightarrow> [] | Some content \<Rightarrow> content)
                       @ ''['' @ os_clock w (ticks w + n) @ ''] [unknown] '' @ cstr ''ls'' @ NL))))"
    by blast
  have g: "stdin getcwd_fails_world = ''ls'' @ NL" "NL = [] \<or> hd NL = CHR 0x0A"
    "\<forall>k. os_alloc getcwd_fails_world k"
    "os_write_denied getcwd_fails_world (cwd getcwd_fails_world) = None"
    "getcwd 1024 getcwd_fails_world = Inl ''No such file or directory''"
    "stdout getcwd_fails_world = []" "stderr getcwd_fails_world = []"
    "ticks getcwd_fails_world = 0" "cwd getcwd_fails_world = ''/home''"
    "files getcwd_fails_world ''/home'' = None"
    "os_clock getcwd_fails_world n = ''2024-01-01 00:00:00''"
    by (simp_all add: getcwd_fails_world_def example_world_def NL_def getcwd_def)
  have r: "stdin read_only_world = ''ls'' @ NL"
    "\<forall>k. os_alloc read_only_world k"
    "os_write_denied read_only_world (cwd read_only_world) \<noteq> None"
    "stdout read_only_world = []" "ticks read_only_world = 0"
    by (simp_all add: read_only_world_def example_world_def)
  from n [OF g(1) g(2) g(3)] g(4-)
  have 1: "stderr (log_history ''ls'' (getcwd_fails_world\<lparr>stdout := ''> '', stdin := [], ticks := n\<rparr>))
          = ''getcwd error: No such file or directory'' @ NL \<and>
        files (log_history ''ls'' (getcwd_fails_world\<lparr>stdout := ''> '', stdin := [], ticks := n\<rparr>))
            ''/home''
          = Some (''[2024-01-01 00:00:00] [unknown] ls'' @ NL)"
    by (simp add: Let_def NL_def cstr_def NUL_def)
  from n [OF r(1) g(2) r(2)] r(3-)
  have 2: "log_history ''ls'' (read_only_world\<lparr>stdout := ''> '', stdin := [], ticks := n\<rparr>)
          = read_only_world\<lparr>stdout := ''> '', stdin := [], ticks := n\<rparr> \<and>
        lsh_loop_body read_only_world
          = and_then
              (lsh_split_line ''ls''
                 (read_only_world\<lparr>stdout := ''> '', stdin := [], ticks := n\<rparr>))
              lsh_execute"
    by (simp add: Let_def NL_def)
  from 1 2 show ?thesis by blast
qed

text \<open>
  Claim C8. At the end of the input the line reader returns the bytes it has read, as
  it does when a newline follows them (the empty line when there are none). With the
  input at its end a round of the loop prints the prompt and has status \<open>1\<close>, and the
  loop never ends. Whenever the loop does end by leaving its \<^verbatim>\<open>do ... while\<close>, the
  routine entered last is \<^verbatim>\<open>exit\<close>. Allocations are taken as granted: a refused one
  ends the process.
\<close>

theorem end_of_input_read_as_line:
  "(CHR 0x0A \<notin> set l \<and> length l + LSH_RL_BUFSIZE \<le> INT_MAX \<and> (\<forall>k. os_alloc w k) \<longrightarrow>
      (\<exists>n. lsh_read_line (w\<lparr>stdin := l\<rparr>)
              = Returns l (w\<lparr>stdin := [], ticks := ticks w + n\<rparr>) \<and>
            lsh_read_line (w\<lparr>stdin := l @ NL\<rparr>)
              = Returns l (w\<lparr>stdin := [], ticks := ticks w + n\<rparr>))) \<and>
   (stdin w = [] \<and> (\<forall>k. os_alloc w k) \<longrightarrow>
      lsh_loop_body w
        = Returns 1 (w\<lparr>stdout := stdout w @ ''> '', ticks := Suc (Suc (ticks w))\<rparr>) \<and>
      lsh_loop w = None) \<and>
   (lsh_loop w = Some (Returns u w') \<longrightarrow> entered w' \<noteq> [] \<and> last (entered w') = In_exit)"
proof -
  have 1: "\<exists>n. lsh_read_line (w\<lparr>stdin := l\<rparr>)
              = Returns l (w\<lparr>stdin := [], ticks := ticks w + n\<rparr>) \<and>
            lsh_read_line (w\<lparr>stdin := l @ NL\<rparr>)
              = Returns l (w\<lparr>stdin := [], ticks := ticks w + n\<rparr>)"
    if a: "CHR 0x0A \<notin> set l" "length l + LSH_RL_BUFSIZE \<le> INT_MAX" "\<forall>k. os_alloc w k"
  proof -
    from lsh_read_line_returns [OF a(1,2)] obtain n where
      n: "\<And>w rest. stdin w = l @ rest \<Longrightarrow> rest = [] \<or> hd rest = CHR 0x0A \<Longrightarrow>
           \<forall>k. os_alloc w k \<Longrightarrow>
           lsh_read_line w = Returns l (w\<lparr>stdin := drop 1 rest, ticks := ticks w + n\<rparr>)"
      by blast
    have "lsh_read_line (w\<lparr>stdin := l\<rparr>)
        = Returns l ((w\<lparr>stdin := l\<rparr>)\<lparr>stdin := drop 1 [], ticks := ticks (w\<lparr>stdin := l\<rparr>) + n\<rparr>)"
      using a(3) by (intro n) simp_all
    moreover have "lsh_read_line (w\<lparr>stdin := l @ NL\<rparr>)
        = Returns l ((w\<lparr>stdin := l @ NL\<rparr>)\<lparr>stdin := drop 1 NL,
            ticks := ticks (w\<lparr>stdin := l @ NL\<rparr>) + n\<rparr>)"
      using a(3) by (intro n) (simp_all add: NL_def)
    ultimately show ?thesis by (auto simp: NL_def)
  qed
  from 1 lsh_loop_body_eof [of w] lsh_loop_eof [of w] lsh_loop_returns_after_exit [of w u w']
  show ?thesis by blast
qed

theorem end_of_input_read_as_line_witness:
  "(\<exists>n. lsh_read_line (example_world\<lparr>stdin := ''ls -l''\<rparr>)
          = Returns ''ls -l'' (example_world\<lparr>stdin := [], ticks := n\<rparr>) \<and>
        lsh_read_line (example_world\<lparr>stdin := ''ls -l'' @ NL\<rparr>)
          = Returns ''ls -l'' (example_world\<lparr>stdin := [], ticks := n\<rparr>)) \<and>
   lsh_loop_body example_world
     = Returns 1 (example_world\<lparr>stdout := ''> '', ticks := 2\<rparr>) \<and>
   lsh_loop example_world = None \<and>
   lsh_loop (example_world\<lparr>stdin := ''exit''\<rparr>)
     = Some (Returns ()
         (example_world\<lparr>stdin := [], stdout := ''> '', entered := [In_exit], ticks := 3,
            files := (\<lambda>d. if d = ''/home''
                           then Some (''[2024-01-01 00:00:00] [/home] exit'' @ NL) else None)\<rparr>)) \<and>
   last (entered
     (example_world\<lparr>stdin := [], stdout := ''> '', entered := [In_exit], ticks := 3,
        files := (\<lambda>d. if d = ''/home''
                       then Some (''[2024-01-01 00:00:00] [/home] exit'' @ NL) else None)\<rparr>))
     = In_exit"
proof -
  let ?w' = "example_world\<lparr>stdin := [], stdout := ''> '', entered := [In_exit], ticks := 3,
            files := (\<lambda>d. if d = ''/home''
                           then Some (''[2024-01-01 00:00:00] [/home] exit'' @ NL) else None)\<rparr>"
  have a: "CHR 0x0A \<notin> set ''ls -l''" "length ''ls -l'' + LSH_RL_BUFSIZE \<le> INT_MAX"
    "\<forall>k. os_alloc example_world k" "stdin example_world = []" "ticks example_world = 0"
    "stdout example_world = []"
    by (simp_all add: LSH_RL_BUFSIZE_def INT_MAX_def example_world_def)
  have b: "lsh_loop_body (example_world\<lparr>stdin := ''exit''\<rparr>) = Returns 0 ?w'"
    by (simp add: example_world_def run_simps fun_eq_iff)
  have r: "lsh_loop (example_world\<lparr>stdin := ''exit''\<rparr>) = Some (Returns () ?w')"
    by (subst lsh_loop.simps) (simp add: b)
  from end_of_input_read_as_line [of "''ls -l''" example_world] a
  have 1: "\<exists>n. lsh_read_line (example_world\<lparr>stdin := ''ls -l''\<rparr>)
          = Returns ''ls -l'' (example_world\<lparr>stdin := [], ticks := n\<rparr>) \<and>
        lsh_read_line (example_world\<lparr>stdin := ''ls -l'' @ NL\<rparr>)
          = Returns ''ls -l'' (example_world\<lparr>stdin := [], ticks := n\<rparr>)"
    by simp
  from end_of_input_read_as_line [of "[]" example_world] a
  have 2: "lsh_loop_body example_world
     = Returns 1 (example_world\<lparr>stdout := ''> '', ticks := 2\<rparr>) \<and>
     lsh_loop example_world = None"
    by (simp add: numeral_2_eq_2)
  from end_of_input_read_as_line [of "[]" "example_world\<lparr>stdin := ''exit''\<rparr>" "()" ?w'] r
  have 3: "last (entered ?w') = In_exit"
    by blast
  from 1 2 3 r show ?thesis by blast
qed

text \<open>
  Claim C9. A record is appended when the line is not empty, whether or not it holds a
  token. For a line of delimiters other than newline, read in a world where the history
  file can be opened: the line has no token, the round enters no routine and has status
  \<open>1\<close>, and the history file of the working directory is as before when the line is
  empty, and else has gained one record that ends with the line as it was typed.
\<close>

theorem delimiter_only_line_is_logged:
  assumes "\<forall>c\<in>set l. c \<in> set LSH_TOK_DELIM \<and> c \<noteq> CHR 0x0A"
    and "length l + LSH_RL_BUFSIZE \<le> INT_MAX"
    and "stdin w = l @ rest" and "rest = [] \<or> hd rest = CHR 0x0A"
    and "\<forall>k. os_alloc w k" and "os_write_denied w (cwd w) = None"
  shows "\<exists>w' ts dir.
           lsh_loop_body w = Returns 1 w' \<and>
           maximal_tokens (cstr l) = [] \<and>
           entered w' = entered w \<and>
           (dir = cwd w \<or> dir = ''unknown'') \<and>
           files w' (cwd w) =
             (if l = [] then files w (cwd w)
              else Some ((case files w (cwd w) of None \<Rightarrow> [] | Some content \<Rightarrow> content)
                         @ ''['' @ ts @ ''] ['' @ dir @ ''] '' @ l @ NL))"
proof -
  from assms(1) have nl: "CHR 0x0A \<notin> set l" by auto
  from assms(1) NUL_not_delim have nul: "NUL \<notin> set l" by auto
  then have c: "cstr l = l" by (rule cstr_id)
  from assms(1) have "\<forall>c\<in>set (cstr l). c \<in> set LSH_TOK_DELIM" unfolding c by simp
  then have m: "maximal_tokens (cstr l) = []" by (rule maximal_tokens_only_delims)
  from lsh_loop_body_after_read [OF nl assms(2)] obtain n where
    n0: "\<forall>w rest. stdin w = l @ rest \<longrightarrow> (rest = [] \<or> hd rest = CHR 0x0A) \<longrightarrow>
            (\<forall>k. os_alloc w k) \<longrightarrow>
            lsh_loop_body w =
              and_then
                (lsh_split_line l
                   (if (l @ [NUL]) ! 0 \<noteq> NUL
                    then log_history l
                           (w\<lparr>stdout := stdout w @ ''> '', stdin := drop 1 rest,
                              ticks := ticks w + n\<rparr>)
                    else w\<lparr>stdout := stdout w @ ''> '', stdin := drop 1 rest,
                           ticks := ticks w + n\<rparr>))
                lsh_execute"
    by blast
  let ?w1 = "w\<lparr>stdout := stdout w @ ''> '', stdin := drop 1 rest, ticks := ticks w + n\<rparr>"
  let ?w2 = "if (l @ [NUL]) ! 0 \<noteq> NUL then log_history l ?w1 else ?w1"
  from n0 assms(3,4,5) have body: "lsh_loop_body w = and_then (lsh_split_line l ?w2) lsh_execute"
    by blast
  have al: "\<forall>k. os_alloc ?w2 k" using assms(5) by (simp add: log_history_keeps)
  have "length l + LSH_TOK_BUFSIZE \<le> INT_MAX"
    using assms(2) by (simp add: LSH_TOK_BUFSIZE_def LSH_RL_BUFSIZE_def)
  from lsh_split_line_returns [OF al this] m obtain k where
    split: "lsh_split_line l ?w2 = Returns [None] (?w2\<lparr>ticks := ticks ?w2 + k\<rparr>)"
    by auto
  let ?w3 = "?w2\<lparr>ticks := ticks ?w2 + k\<rparr>"
  have ex: "lsh_execute [None] ?w3 = Returns 1 ?w3"
    using lsh_execute_empty [of ?w3] by simp
  have ret: "lsh_loop_body w = Returns 1 ?w3"
    unfolding body split and_then_Returns_eq ex ..
  have ent: "entered ?w3 = entered w" by (simp add: log_history_keeps)
  show ?thesis
  proof (cases "l = []")
    case True
    then have "files ?w3 (cwd w) = files w (cwd w)" by simp
    with ret m ent True show ?thesis by auto
  next
    case False
    with nul have first: "(l @ [NUL]) ! 0 \<noteq> NUL"
      by (cases l) auto
    have op: "os_write_denied ?w1 (cwd ?w1) = None" using assms(6) by simp
    let ?old = "case files w (cwd w) of None \<Rightarrow> [] | Some content \<Rightarrow> content"
    have "\<exists>dir. (dir = cwd w \<or> dir = ''unknown'') \<and>
        files (log_history l ?w1) (cwd w)
          = Some (?old @ ''['' @ os_clock w (ticks w + n) @ ''] ['' @ dir @ ''] '' @ l @ NL)"
    proof (cases "getcwd 1024 ?w1")
      case (Inl e)
      with log_history_opened [OF op, of l] c
      have "files (log_history l ?w1) (cwd w)
          = Some (?old @ ''['' @ os_clock w (ticks w + n) @ ''] ['' @ ''unknown'' @ ''] '' @ l @ NL)"
        by (simp add: fprintf_history_def perror_def fprintf_stderr_def)
      then show ?thesis by blast
    next
      case (Inr d)
      from getcwd_Inr [OF Inr] have d: "d = cwd w" by simp
      from Inr log_history_opened [OF op, of l] c
      have "files (log_history l ?w1) (cwd w)
          = Some (?old @ ''['' @ os_clock w (ticks w + n) @ ''] ['' @ cwd w @ ''] '' @ l @ NL)"
        unfolding d by (simp add: fprintf_history_def)
      then show ?thesis by blast
    qed
    then obtain dir where dir: "dir = cwd w \<or> dir = ''unknown''"
      "files (log_history l ?w1) (cwd w)
          = Some (?old @ ''['' @ os_clock w (ticks w + n) @ ''] ['' @ dir @ ''] '' @ l @ NL)"
      by blast
    from first dir(2) have "files ?w3 (cwd w)
        = Some (?old @ ''['' @ os_clock w (ticks w + n) @ ''] ['' @ dir @ ''] '' @ l @ NL)"
      by simp
    with ret m ent False dir(1) show ?thesis by auto
  qed
qed

theorem delimiter_only_line_is_logged_witness:
  "\<exists>w' ts dir.
     lsh_loop_body (example_world\<lparr>stdin := ''   '' @ NL @ ''exit''\<rparr>) = Returns 1 w' \<and>
     maximal_tokens (cstr ''   '') = [] \<and>
     entered w' = [] \<and>
     (dir = ''/home'' \<or> dir = ''unknown'') \<and>
     files w' ''/home'' = Some (''['' @ ts @ ''] ['' @ dir @ ''] '' @ ''   '' @ NL)"
proof -
  let ?w = "example_world\<lparr>stdin := ''   '' @ NL @ ''exit''\<rparr>"
  have a: "\<forall>c\<in>set ''   ''. c \<in> set LSH_TOK_DELIM \<and> c \<noteq> CHR 0x0A"
    "length ''   '' + LSH_RL_BUFSIZE \<le> INT_MAX"
    "stdin ?w = ''   '' @ (NL @ ''exit'')"
    "NL @ ''exit'' = [] \<or> hd (NL @ ''exit'') = CHR 0x0A"
    "\<forall>k. os_alloc ?w k" "os_write_denied ?w (cwd ?w) = None"
    by (simp_all add: LSH_TOK_DELIM_def LSH_RL_BUFSIZE_def INT_MAX_def NL_def example_world_def)
  have w: "cwd ?w = ''/home''" "files ?w ''/home'' = None" "entered ?w = []"
    by (simp_all add: example_world_def)
  from delimiter_only_line_is_logged [OF a] show ?thesis
    unfolding w by simp
qed

end
